theory Spec2Isabelle
  imports Complex_Main "HOL-Library.Multiset"
begin

section \<open>The GHE rainfall notebook: data model\<close>

text \<open>
  The program is the notebook \<^verbatim>\<open>Code/ColabNotebooks/Data Retreival/ghe.ipynb\<close>: it
  downloads the navigation grid, selects the blobs of one day (or of one 15-minute scan),
  sums the \<^verbatim>\<open>rain\<close> variable of every blob with negative fill values zeroed, prints
  the range of the sum and decimates grid and sum for plotting.

  Arrays are two-dimensional, as the grid and the samples of this dataset are, and hold
  no masked entry: fill values appear as negative numbers, as the notebook's comment says.
\<close>

subsection \<open>Floating-point cells\<close>

text \<open>
  A cell is a \<^verbatim>\<open>float64\<close>: a number or NaN. Numbers are exact reals, so rounding,
  overflow and the infinities are left out; NaN is kept, because the notebook's comparison
  and its sum treat it differently from every number. Comparisons with NaN are false, and
  a sum with a NaN operand is NaN, as in IEEE 754.
\<close>

datatype f64 = Num real | NaN

instantiation f64 :: "{zero, one, plus, uminus, ord}"
begin

definition zero_f64 :: f64 where
  "zero_f64 = Num 0"

definition one_f64 :: f64 where
  "one_f64 = Num 1"

definition plus_f64 :: "f64 \<Rightarrow> f64 \<Rightarrow> f64" where
  "plus_f64 x y = (case x of Num a \<Rightarrow> (case y of Num b \<Rightarrow> Num (a + b) | NaN \<Rightarrow> NaN) | NaN \<Rightarrow> NaN)"

definition uminus_f64 :: "f64 \<Rightarrow> f64" where
  "uminus_f64 x = (case x of Num a \<Rightarrow> Num (- a) | NaN \<Rightarrow> NaN)"

definition less_f64 :: "f64 \<Rightarrow> f64 \<Rightarrow> bool" where
  "less_f64 x y = (case x of Num a \<Rightarrow> (case y of Num b \<Rightarrow> a < b | NaN \<Rightarrow> False) | NaN \<Rightarrow> False)"

definition less_eq_f64 :: "f64 \<Rightarrow> f64 \<Rightarrow> bool" where
  "less_eq_f64 x y = (case x of Num a \<Rightarrow> (case y of Num b \<Rightarrow> a \<le> b | NaN \<Rightarrow> False) | NaN \<Rightarrow> False)"

instance ..

end

text \<open>
  Addition is associative and commutative with unit 0 (NaN absorbs), so sums over lists
  and numerals are available on \<open>f64\<close>.
\<close>

instance f64 :: comm_monoid_add
proof
  fix a b c :: f64
  show "a + b + c = a + (b + c)"
    by (simp add: plus_f64_def split: f64.splits)
  show "a + b = b + a"
    by (simp add: plus_f64_def split: f64.splits)
  show "0 + a = a"
    by (simp add: plus_f64_def zero_f64_def split: f64.splits)
qed

instance f64 :: numeral ..

text \<open>
  \<^verbatim>\<open>np.min\<close> and \<^verbatim>\<open>np.max\<close> return NaN as soon as one operand is NaN.
\<close>

definition nan_min :: "f64 \<Rightarrow> f64 \<Rightarrow> f64" where
  "nan_min x y = (case x of Num a \<Rightarrow> (case y of Num b \<Rightarrow> Num (min a b) | NaN \<Rightarrow> NaN) | NaN \<Rightarrow> NaN)"

definition nan_max :: "f64 \<Rightarrow> f64 \<Rightarrow> f64" where
  "nan_max x y = (case x of Num a \<Rightarrow> (case y of Num b \<Rightarrow> Num (max a b) | NaN \<Rightarrow> NaN) | NaN \<Rightarrow> NaN)"

subsection \<open>Two-dimensional numpy arrays\<close>

text \<open>
  An array is its rows together with its number of columns; the number of columns is kept
  apart so that the shapes \<open>(0, w)\<close> exist. \<open>wf_array\<close> says that every row has
  that length.
\<close>

record ndarray =
  ncols :: nat
  rows :: "f64 list list"

definition nrows :: "ndarray \<Rightarrow> nat" where
  "nrows a = length (rows a)"

definition shape :: "ndarray \<Rightarrow> nat \<times> nat" where
  "shape a = (nrows a, ncols a)"

definition wf_array :: "ndarray \<Rightarrow> bool" where
  "wf_array a = list_all (\<lambda>r. length r = ncols a) (rows a)"

text \<open>\<open>a[i][j]\<close>, read only where \<open>i < nrows a\<close> and \<open>j < ncols a\<close>.\<close>

definition cell :: "ndarray \<Rightarrow> nat \<Rightarrow> nat \<Rightarrow> f64" where
  "cell a i j = rows a ! i ! j"

text \<open>\<^verbatim>\<open>np.zeros(shape)\<close>\<close>

definition np_zeros :: "nat \<times> nat \<Rightarrow> ndarray" where
  "np_zeros s = \<lparr>ncols = snd s, rows = replicate (fst s) (replicate (snd s) 0)\<rparr>"

text \<open>
  \<^verbatim>\<open>rainfall_sample[rainfall_sample < 0] = 0\<close>: the comparison is false on NaN, which
  therefore stays.
\<close>

definition zero_negative :: "ndarray \<Rightarrow> ndarray" where
  "zero_negative a = a\<lparr>rows := map (map (\<lambda>x. if x < 0 then 0 else x)) (rows a)\<rparr>"

text \<open>
  The Python exceptions the notebook can raise. \<open>URLError\<close> comes from
  \<^verbatim>\<open>urllib.request.urlretrieve\<close>, \<open>AzureError\<close> from iterating
  \<^verbatim>\<open>list_blobs\<close>, \<open>OSError\<close> from \<^verbatim>\<open>gzip\<close> (\<^verbatim>\<open>BadGzipFile\<close>) and from
  \<^verbatim>\<open>netCDF4.Dataset\<close> on bytes that are not what they expect, \<open>EOFError\<close> from
  \<^verbatim>\<open>gzip\<close> on a stream that ends early, \<open>ZlibError\<close> (\<^verbatim>\<open>zlib.error\<close>) from
  \<^verbatim>\<open>gzip\<close> on corrupt compressed data, \<open>IndexError\<close>
  from \<^verbatim>\<open>dataset[name]\<close> on a missing variable, \<open>AttributeError\<close> from
  \<^verbatim>\<open>.units\<close> on a variable without that attribute, \<open>ValueError\<close> from numpy
  (operands that do not broadcast, \<^verbatim>\<open>np.min\<close> of an empty array),
  \<open>NameError\<close> from reading an unbound name and \<open>AssertionError\<close> from
  \<^verbatim>\<open>assert\<close>.
\<close>

datatype error =
    URLError | AzureError | OSError | EOFError | ZlibError | IndexError | AttributeError
  | ValueError | NameError | AssertionError

text \<open>
  numpy's broadcasting rule for one axis: two lengths go together when they are equal or
  one of them is 1, and the result has the other length.
\<close>

definition broadcast_dim :: "nat \<Rightarrow> nat \<Rightarrow> nat option" where
  "broadcast_dim m n =
     (if m = n then Some m else if m = 1 then Some n else if n = 1 then Some m else None)"

text \<open>A list of length \<open>n\<close> stays; a list of length 1 is repeated \<open>n\<close> times.\<close>

definition stretch :: "nat \<Rightarrow> 'a list \<Rightarrow> 'a list" where
  "stretch n xs = (if length xs = n then xs else replicate n (hd xs))"

definition broadcast_to :: "nat \<times> nat \<Rightarrow> ndarray \<Rightarrow> ndarray" where
  "broadcast_to s a = \<lparr>ncols = snd s, rows = stretch (fst s) (map (stretch (snd s)) (rows a))\<rparr>"

text \<open>\<^verbatim>\<open>a + b\<close> on two-dimensional arrays.\<close>

definition np_add :: "ndarray \<Rightarrow> ndarray \<Rightarrow> error + ndarray" where
  "np_add a b =
     (case broadcast_dim (nrows a) (nrows b) of
        None \<Rightarrow> Inl ValueError
      | Some h \<Rightarrow>
         (case broadcast_dim (ncols a) (ncols b) of
            None \<Rightarrow> Inl ValueError
          | Some w \<Rightarrow>
             Inr \<lparr>ncols = w,
                  rows = map2 (map2 (+)) (rows (broadcast_to (h, w) a))
                                         (rows (broadcast_to (h, w) b))\<rparr>))"

text \<open>\<^verbatim>\<open>np.min(a)\<close> and \<^verbatim>\<open>np.max(a)\<close>: an empty array has no minimum.\<close>

definition np_min :: "ndarray \<Rightarrow> error + f64" where
  "np_min a = (case concat (rows a) of [] \<Rightarrow> Inl ValueError | x # xs \<Rightarrow> Inr (fold nan_min xs x))"

definition np_max :: "ndarray \<Rightarrow> error + f64" where
  "np_max a = (case concat (rows a) of [] \<Rightarrow> Inl ValueError | x # xs \<Rightarrow> Inr (fold nan_max xs x))"

subsection \<open>Blobs, the remote store and the local effects of a run\<close>

text \<open>
  A netCDF variable is its array and its optional \<^verbatim>\<open>units\<close> attribute; a dataset is
  its named variables. The bytes of a blob are modelled by what \<^verbatim>\<open>gzip\<close> and
  \<^verbatim>\<open>netCDF4\<close> make of them: bytes that are no gzip file, a gzip stream that ends
  early, a gzip stream with corrupt compressed data, or a gzip file of some payload.
\<close>

record variable =
  array :: ndarray
  units :: "string option"

type_synonym dataset = "(string \<times> variable) list"

datatype payload = Not_netcdf | Netcdf dataset

datatype bytes = Not_gzip | Truncated_gzip | Corrupt_deflate | Gzip payload

text \<open>
  The remote side is a capability the notebook does not control: \<open>blob_names\<close> are
  the names in the container in the store's own enumeration order (\<open>None\<close> when the
  listing request fails), and \<open>http\<close> is what a GET of a URL returns (\<open>None\<close>
  when the request fails). The two are independent: a listed blob may fail to download.
\<close>

record remote =
  blob_names :: "string list option"
  http :: "string \<rightharpoonup> bytes"

text \<open>
  What a run leaves outside the Python namespace, also when it dies with an exception:
  the URLs requested and the prefixes listed, oldest first, and the temporary files.
\<close>

record world =
  requests :: "string list"
  listings :: "string list"
  files :: "string \<rightharpoonup> bytes"

definition grid_file_url :: string where
  "grid_file_url = ''https://ghe.blob.core.windows.net/noaa-ghe/NPR.GEO.GHE.v1.Navigation.netcdf.gz''"

text \<open>\<^verbatim>\<open>os.path.join(tempfile.gettempdir(),'ghe')\<close>, with \<^verbatim>\<open>/tmp\<close> as the system's directory.\<close>

definition temp_dir :: string where
  "temp_dir = ''/tmp/ghe''"

definition storage_account_name :: string where
  "storage_account_name = ''ghe''"

definition container_name :: string where
  "container_name = ''noaa-ghe''"

definition storage_account_url :: string where
  "storage_account_url = ''https://'' @ storage_account_name @ ''.blob.core.windows.net''"

definition ghe_blob_root :: string where
  "ghe_blob_root = storage_account_url @ ''/'' @ container_name @ ''/''"

text \<open>\<^verbatim>\<open>s.startswith(p)\<close>\<close>

definition startswith :: "string \<Rightarrow> string \<Rightarrow> bool" where
  "startswith s p = (take (length p) s = p)"

text \<open>
  \<^verbatim>\<open>s.replace(old, new)\<close>: the occurrences of \<open>old\<close> are replaced from the left,
  without overlap. The notebook only calls it with a non-empty \<open>old\<close>.
\<close>

function str_replace :: "string \<Rightarrow> string \<Rightarrow> string \<Rightarrow> string" where
  "str_replace old new [] = []"
| "str_replace old new (c # cs) =
     (if old \<noteq> [] \<and> startswith (c # cs) old
      then new @ str_replace old new (drop (length old) (c # cs))
      else c # str_replace old new cs)"
  by pat_completeness auto
termination
  by (relation "measure (\<lambda>(old, new, s). length s)") auto

text \<open>\<^verbatim>\<open>os.path.join(a, b)\<close> for a directory \<open>a\<close> without a trailing separator.\<close>

definition os_path_join :: "string \<Rightarrow> string \<Rightarrow> string" where
  "os_path_join a b = (if startswith b ''/'' then b else a @ ''/'' @ b)"

text \<open>
  \<^verbatim>\<open>download_url(url)\<close>: the request is made, and on success the bytes are stored
  under \<open>destination_filename\<close>, which is returned.
\<close>

definition download_url :: "remote \<Rightarrow> string \<Rightarrow> world \<Rightarrow> world \<times> (error + string)" where
  "download_url R url w =
     (let url_as_filename = str_replace ''/'' ''_'' (str_replace ''://'' ''_'' url);
          destination_filename = os_path_join temp_dir url_as_filename;
          w1 = w\<lparr>requests := requests w @ [url]\<rparr>
      in case http R url of
           None \<Rightarrow> (w1, Inl URLError)
         | Some b \<Rightarrow> (w1\<lparr>files := (files w1)(destination_filename \<mapsto> b)\<rparr>,
                      Inr destination_filename))"

text \<open>
  \<^verbatim>\<open>with gzip.open(filename) as gz: netCDF4.Dataset('dummy', mode='r', memory=gz.read())\<close>
\<close>

definition gzip_read :: "world \<Rightarrow> string \<Rightarrow> error + payload" where
  "gzip_read w filename =
     (case files w filename of
        None \<Rightarrow> Inl OSError
      | Some Not_gzip \<Rightarrow> Inl OSError
      | Some Truncated_gzip \<Rightarrow> Inl EOFError
      | Some Corrupt_deflate \<Rightarrow> Inl ZlibError
      | Some (Gzip p) \<Rightarrow> Inr p)"

definition netCDF4_Dataset :: "payload \<Rightarrow> error + dataset" where
  "netCDF4_Dataset p = (case p of Not_netcdf \<Rightarrow> Inl OSError | Netcdf d \<Rightarrow> Inr d)"

definition open_dataset :: "world \<Rightarrow> string \<Rightarrow> error + dataset" where
  "open_dataset w filename =
     (case gzip_read w filename of Inl e \<Rightarrow> Inl e | Inr p \<Rightarrow> netCDF4_Dataset p)"

text \<open>\<^verbatim>\<open>dataset[name]\<close> and \<^verbatim>\<open>var.units\<close>\<close>

definition getitem :: "dataset \<Rightarrow> string \<Rightarrow> error + variable" where
  "getitem d name = (case map_of d name of None \<Rightarrow> Inl IndexError | Some v \<Rightarrow> Inr v)"

definition get_units :: "variable \<Rightarrow> error + string" where
  "get_units v = (case units v of None \<Rightarrow> Inl AttributeError | Some u \<Rightarrow> Inr u)"

section \<open>The cells of the notebook\<close>

subsection \<open>Download the grid spacing file\<close>

text \<open>The cell binds \<open>lat_grid_raw\<close> and \<open>lon_grid_raw\<close>, returned in this order.\<close>

definition load_grid :: "remote \<Rightarrow> world \<Rightarrow> world \<times> (error + variable \<times> variable)" where
  "load_grid R w =
     (case download_url R grid_file_url w of
        (w1, Inl e) \<Rightarrow> (w1, Inl e)
      | (w1, Inr grid_filename_gz) \<Rightarrow>
         (w1,
          case open_dataset w1 grid_filename_gz of
            Inl e \<Rightarrow> Inl e
          | Inr grid_dataset \<Rightarrow>
             (case getitem grid_dataset ''latitude'' of
                Inl e \<Rightarrow> Inl e
              | Inr lat_grid_raw \<Rightarrow>
                 (case getitem grid_dataset ''longitude'' of
                    Inl e \<Rightarrow> Inl e
                  | Inr lon_grid_raw \<Rightarrow> Inr (lat_grid_raw, lon_grid_raw)))))"

subsection \<open>Select data\<close>

text \<open>
  The notebook fixes the selection in its text (\<open>default_selection\<close>); the functions
  take it as a parameter.
\<close>

record selection =
  product :: string
  syear :: string
  smonth :: string
  sday :: string
  stime :: string
  single_time_point :: bool

definition default_selection :: selection where
  "default_selection =
     \<lparr>product = ''rain_rate'', syear = ''2020'', smonth = ''04'', sday = ''09'',
      stime = ''0200'', single_time_point = False\<rparr>"

text \<open>\<^verbatim>\<open>ghe_container_client.list_blobs(name_starts_with=prefix)\<close>, iterated to its end.\<close>

definition list_blobs :: "remote \<Rightarrow> string \<Rightarrow> world \<Rightarrow> world \<times> (error + string list)" where
  "list_blobs R prefix w =
     (let w1 = w\<lparr>listings := listings w @ [prefix]\<rparr>
      in case blob_names R of
           None \<Rightarrow> (w1, Inl AzureError)
         | Some names \<Rightarrow> (w1, Inr (filter (\<lambda>name. startswith name prefix) names)))"

text \<open>The cell binds \<open>blob_urls\<close>.\<close>

definition select_data :: "remote \<Rightarrow> selection \<Rightarrow> world \<Rightarrow> world \<times> (error + string list)" where
  "select_data R sel w =
     (if single_time_point sel then
        (let filename = ''NPR.GEO.GHE.v1.S'' @ syear sel @ smonth sel @ sday sel @ stime sel
                          @ ''.nc.gz''
         in (w, Inr [ghe_blob_root @ product sel @ ''/'' @ syear sel @ ''/'' @ smonth sel
                       @ ''/'' @ sday sel @ ''/'' @ filename]))
      else
        (let prefix = product sel @ ''/'' @ syear sel @ ''/'' @ smonth sel @ ''/'' @ sday sel
         in case list_blobs R prefix w of
              (w1, Inl e) \<Rightarrow> (w1, Inl e)
            | (w1, Inr names) \<Rightarrow> (w1, Inr (map (\<lambda>name. ghe_blob_root @ name) names))))"

subsection \<open>Read and sum the variable of interest\<close>

text \<open>
  The names the cell binds. \<open>None\<close> in \<open>rain_units\<close> is the unbound name: the cell
  assigns it only inside the loop. \<open>variable_description\<close> starts as Python's
  \<^verbatim>\<open>None\<close>; the text \<^verbatim>\<open>str(dataset.variables)\<close> is kept as the variables it
  describes.
\<close>

record vars =
  n_valid :: ndarray
  rainfall :: ndarray
  variable_description :: "dataset option"
  rain_units :: "string option"

text \<open>One pass of the loop body, for one \<open>blob_url\<close>.\<close>

definition loop_body :: "remote \<Rightarrow> string \<Rightarrow> world \<Rightarrow> vars \<Rightarrow> world \<times> (error + vars)" where
  "loop_body R blob_url w v =
     (case download_url R blob_url w of
        (w1, Inl e) \<Rightarrow> (w1, Inl e)
      | (w1, Inr filename) \<Rightarrow>
         (w1,
          case open_dataset w1 filename of
            Inl e \<Rightarrow> Inl e
          | Inr dataset \<Rightarrow>
             (case getitem dataset ''rain'' of
                Inl e \<Rightarrow> Inl e
              | Inr rain \<Rightarrow>
                 (let rainfall_sample = zero_negative (array rain)
                  in case get_units rain of
                       Inl e \<Rightarrow> Inl e
                     | Inr u \<Rightarrow>
                        (case np_add (rainfall v) rainfall_sample of
                           Inl e \<Rightarrow> Inl e
                         | Inr r \<Rightarrow>
                            Inr (v\<lparr>variable_description := Some dataset,
                                    rain_units := Some u,
                                    rainfall := r\<rparr>))))))"

text \<open>\<^verbatim>\<open>for i_blob,blob_url in tqdm(enumerate(blob_urls),total=len(blob_urls)):\<close>\<close>

fun sum_loop :: "remote \<Rightarrow> string list \<Rightarrow> world \<Rightarrow> vars \<Rightarrow> world \<times> (error + vars)" where
  "sum_loop R [] w v = (w, Inr v)"
| "sum_loop R (blob_url # blob_urls) w v =
     (case loop_body R blob_url w v of
        (w1, Inl e) \<Rightarrow> (w1, Inl e)
      | (w1, Inr v1) \<Rightarrow> sum_loop R blob_urls w1 v1)"

text \<open>The bindings before the loop.\<close>

definition init_vars :: "variable \<Rightarrow> vars" where
  "init_vars lat_grid_raw =
     \<lparr>n_valid = np_zeros (shape (array lat_grid_raw)),
      rainfall = np_zeros (shape (array lat_grid_raw)),
      variable_description = None,
      rain_units = None\<rparr>"

text \<open>
  The lines after the loop, up to the \<^verbatim>\<open>print\<close> of the range: the minimum, the
  maximum and the units the message is formatted with.
\<close>

definition print_range :: "vars \<Rightarrow> error + f64 \<times> f64 \<times> string" where
  "print_range v =
     (case np_min (rainfall v) of
        Inl e \<Rightarrow> Inl e
      | Inr min_rf \<Rightarrow>
         (case np_max (rainfall v) of
            Inl e \<Rightarrow> Inl e
          | Inr max_rf \<Rightarrow>
             (case rain_units v of
                None \<Rightarrow> Inl NameError
              | Some u \<Rightarrow> Inr (min_rf, max_rf, u))))"

text \<open>The cell, from the initial bindings to the printed range.\<close>

definition read_and_sum ::
  "remote \<Rightarrow> variable \<Rightarrow> string list \<Rightarrow> world \<Rightarrow> world \<times> (error + vars \<times> f64 \<times> f64 \<times> string)" where
  "read_and_sum R lat_grid_raw blob_urls w =
     (case sum_loop R blob_urls w (init_vars lat_grid_raw) of
        (w1, Inl e) \<Rightarrow> (w1, Inl e)
      | (w1, Inr v) \<Rightarrow>
         (w1, case print_range v of Inl e \<Rightarrow> Inl e | Inr p \<Rightarrow> Inr (v, p)))"


subsection \<open>Prepare indices, downsample for faster plotting\<close>

text \<open>
  \<^verbatim>\<open>xs[::k]\<close> for a step \<open>k \<ge> 1\<close>: the first element, then every \<open>k\<close>-th after it.
\<close>

function stride :: "nat \<Rightarrow> 'a list \<Rightarrow> 'a list" where
  "stride k [] = []"
| "stride k (x # xs) = x # stride k (drop (k - 1) xs)"
  by pat_completeness auto
termination
  by (relation "measure (\<lambda>(k, xs). length xs)") auto

text \<open>The values of \<^verbatim>\<open>a[::k, ::k]\<close>.\<close>

definition decimate :: "nat \<Rightarrow> ndarray \<Rightarrow> ndarray" where
  "decimate k a = \<lparr>ncols = (ncols a + k - 1) div k, rows = map (stride k) (stride k (rows a))\<rparr>"

text \<open>
  From \<^verbatim>\<open>rainfall_raw = rainfall.copy()\<close> on, two names share one array's storage,
  so storage is explicit here: the heap is the list of the array objects, an address is an
  index into it, and allocation appends. A name holds a whole array or the strided view
  \<^verbatim>\<open>base[::k, ::k]\<close> of one, which reads through to the base's storage. (Before that
  line no two names share an array, and values are enough.)
\<close>

type_synonym heap = "ndarray list"

datatype ref = Whole nat | Strided nat nat

definition deref :: "heap \<Rightarrow> ref \<Rightarrow> ndarray" where
  "deref h r = (case r of Whole a \<Rightarrow> h ! a | Strided a k \<Rightarrow> decimate k (h ! a))"

text \<open>\<^verbatim>\<open>r[::k, ::k]\<close> on an array is a view of the same storage.\<close>

definition slice_view :: "ref \<Rightarrow> nat \<Rightarrow> ref" where
  "slice_view r k = (case r of Whole a \<Rightarrow> Strided a k | Strided a m \<Rightarrow> Strided a (m * k))"

text \<open>
  The names the two cells bind; \<open>rainfall_name\<close> is the name \<open>rainfall\<close> after its
  rebinding.
\<close>

record namespace =
  rainfall_raw :: ref
  lon_grid :: ref
  lat_grid :: ref
  rainfall_name :: ref

definition ds_factor :: nat where
  "ds_factor = 10"

text \<open>
  The last line of the summing cell and the downsampling cell, started with the name
  \<open>rainfall\<close> bound to the whole array at address \<open>a\<close>. Slicing a netCDF variable
  reads it into a new array.
\<close>

definition downsample :: "heap \<Rightarrow> nat \<Rightarrow> variable \<Rightarrow> variable \<Rightarrow> error + heap \<times> namespace" where
  "downsample h a lat_grid_raw lon_grid_raw =
     (let h1 = h @ [deref h (Whole a)];
          raw = Whole (length h)
      in if shape (deref h1 raw) \<noteq> shape (array lat_grid_raw) then Inl AssertionError
         else if shape (deref h1 raw) \<noteq> shape (array lon_grid_raw) then Inl AssertionError
         else
           (let h2 = h1 @ [decimate ds_factor (array lon_grid_raw)];
                lon = Whole (length h1);
                h3 = h2 @ [decimate ds_factor (array lat_grid_raw)];
                lat = Whole (length h2)
            in Inr (h3, \<lparr>rainfall_raw = raw, lon_grid = lon, lat_grid = lat,
                         rainfall_name = slice_view raw ds_factor\<rparr>)))"

subsection \<open>The notebook from the grid download to the downsampled arrays\<close>

record outcome =
  blob_urls :: "string list"
  summed :: vars
  min_rf :: f64
  max_rf :: f64
  printed_units :: string
  objects :: heap
  names :: namespace

definition run :: "remote \<Rightarrow> selection \<Rightarrow> world \<Rightarrow> world \<times> (error + outcome)" where
  "run R sel w =
     (case load_grid R w of
        (w1, Inl e) \<Rightarrow> (w1, Inl e)
      | (w1, Inr (lat_grid_raw, lon_grid_raw)) \<Rightarrow>
         (case select_data R sel w1 of
            (w2, Inl e) \<Rightarrow> (w2, Inl e)
          | (w2, Inr urls) \<Rightarrow>
             (case read_and_sum R lat_grid_raw urls w2 of
                (w3, Inl e) \<Rightarrow> (w3, Inl e)
              | (w3, Inr (v, mn, mx, u)) \<Rightarrow>
                 (w3,
                  case downsample [rainfall v] 0 lat_grid_raw lon_grid_raw of
                    Inl e \<Rightarrow> Inl e
                  | Inr (h, ns) \<Rightarrow>
                     Inr \<lparr>blob_urls = urls, summed = v, min_rf = mn, max_rf = mx,
                          printed_units = u, objects = h, names = ns\<rparr>))))"

section \<open>Conditions on the inputs\<close>

text \<open>
  What a blob offers the loop body: the \<^verbatim>\<open>rain\<close> array and its units, when the URL
  can be fetched, gunzipped and decoded and the variable and its attribute are there.
\<close>

definition sample_at :: "remote \<Rightarrow> string \<Rightarrow> (ndarray \<times> string) option" where
  "sample_at R url =
     (case http R url of
        Some (Gzip (Netcdf d)) \<Rightarrow>
          (case map_of d ''rain'' of
             Some var \<Rightarrow> (case units var of Some u \<Rightarrow> Some (array var, u) | None \<Rightarrow> None)
           | None \<Rightarrow> None)
      | _ \<Rightarrow> None)"

text \<open>numpy arrays are rectangular: every sample that can be read is well formed.\<close>

definition wf_samples :: "remote \<Rightarrow> string list \<Rightarrow> bool" where
  "wf_samples R urls =
     list_all (\<lambda>url. case sample_at R url of None \<Rightarrow> True | Some (s, u) \<Rightarrow> wf_array s) urls"

text \<open>Every URL of the list offers a well-formed sample of the given shape.\<close>

definition samples_of_shape :: "remote \<Rightarrow> nat \<times> nat \<Rightarrow> string list \<Rightarrow> bool" where
  "samples_of_shape R shp urls =
     list_all (\<lambda>url. case sample_at R url of
                        None \<Rightarrow> False
                      | Some (s, u) \<Rightarrow> wf_array s \<and> shape s = shp) urls"

text \<open>
  The exception a blob makes the loop body raise before the addition, if any: from the
  download, from \<^verbatim>\<open>gzip\<close>, from \<^verbatim>\<open>netCDF4\<close>, from the lookup of \<^verbatim>\<open>rain\<close>
  or from the lookup of its units.
\<close>

definition failure_at :: "remote \<Rightarrow> string \<Rightarrow> error option" where
  "failure_at R url =
     (case http R url of
        None \<Rightarrow> Some URLError
      | Some Not_gzip \<Rightarrow> Some OSError
      | Some Truncated_gzip \<Rightarrow> Some EOFError
      | Some Corrupt_deflate \<Rightarrow> Some ZlibError
      | Some (Gzip Not_netcdf) \<Rightarrow> Some OSError
      | Some (Gzip (Netcdf d)) \<Rightarrow>
          (case map_of d ''rain'' of
             None \<Rightarrow> Some IndexError
           | Some var \<Rightarrow> (case units var of None \<Rightarrow> Some AttributeError | Some u \<Rightarrow> None)))"

text \<open>No cell is NaN.\<close>

definition nan_free :: "ndarray \<Rightarrow> bool" where
  "nan_free a = list_all (list_all (\<lambda>x. x \<noteq> NaN)) (rows a)"

text \<open>No sample that can be read holds a NaN.\<close>

definition nan_free_samples :: "remote \<Rightarrow> string list \<Rightarrow> bool" where
  "nan_free_samples R urls =
     list_all (\<lambda>url. case sample_at R url of None \<Rightarrow> True | Some (s, u) \<Rightarrow> nan_free s) urls"

text \<open>Every cell is at least zero.\<close>

definition nonneg :: "ndarray \<Rightarrow> bool" where
  "nonneg a = list_all (list_all (\<lambda>x. 0 \<le> x)) (rows a)"

section \<open>A worked scenario\<close>

text \<open>
  A container with a \<open>2 \<times> 2\<close> grid and the scans of one day: the two samples
  \<open>[[1,-1],[0,2]]\<close> and \<open>[[3,4],[-1,-1]]\<close>, listed in this order.
\<close>

definition lat22 :: variable where
  "lat22 = \<lparr>array = \<lparr>ncols = 2, rows = [[10, 10], [20, 20]]\<rparr>, units = Some ''degrees_north''\<rparr>"

definition lon22 :: variable where
  "lon22 = \<lparr>array = \<lparr>ncols = 2, rows = [[30, 40], [30, 40]]\<rparr>, units = Some ''degrees_east''\<rparr>"

definition grid22 :: dataset where
  "grid22 = [(''latitude'', lat22), (''longitude'', lon22)]"

definition scan :: "f64 list list \<Rightarrow> string \<Rightarrow> bytes" where
  "scan rs u = Gzip (Netcdf [(''rain'', \<lparr>array = \<lparr>ncols = 2, rows = rs\<rparr>, units = Some u\<rparr>)])"

definition name1 :: string where
  "name1 = ''rain_rate/2020/04/09/NPR.GEO.GHE.v1.S202004090000.nc.gz''"

definition name2 :: string where
  "name2 = ''rain_rate/2020/04/09/NPR.GEO.GHE.v1.S202004090015.nc.gz''"

definition web :: "(string \<times> bytes) list \<Rightarrow> string \<rightharpoonup> bytes" where
  "web blobs = map_of ((grid_file_url, Gzip (Netcdf grid22)) # map (\<lambda>(n, b). (ghe_blob_root @ n, b)) blobs)"

definition store2 :: remote where
  "store2 =
     \<lparr>blob_names = Some [''NPR.GEO.GHE.v1.Navigation.netcdf.gz'', name1, name2],
      http = web [(name1, scan [[1, -1], [0, 2]] ''mm''), (name2, scan [[3, 4], [-1, -1]] ''mm/h'')]\<rparr>"

definition world0 :: world where
  "world0 = \<lparr>requests = [], listings = [], files = Map.empty\<rparr>"


text \<open>A namespace in the middle of a run, with a running sum of shape \<open>(2, 2)\<close>.\<close>

definition vars_mid :: vars where
  "vars_mid =
     \<lparr>n_valid = np_zeros (2, 2),
      rainfall = \<lparr>ncols = 2, rows = [[5, 7], [0, 1]]\<rparr>,
      variable_description = None,
      rain_units = Some ''mm''\<rparr>"

text \<open>Arrays of shape \<open>(1, 12)\<close>, wide enough for a second column after decimation.\<close>

definition wide_sum :: ndarray where
  "wide_sum = \<lparr>ncols = 12, rows = [[0, 1, 2, 3, 4, 5, 6, 7, 8, 9, 10, 11]]\<rparr>"

definition wide_lat :: variable where
  "wide_lat = \<lparr>array = \<lparr>ncols = 12, rows = [[50, 50, 50, 50, 50, 50, 50, 50, 50, 50, 50, 50]]\<rparr>,
               units = Some ''degrees_north''\<rparr>"

definition wide_lon :: variable where
  "wide_lon = \<lparr>array = \<lparr>ncols = 12, rows = [[20, 21, 22, 23, 24, 25, 26, 27, 28, 29, 30, 31]]\<rparr>,
               units = Some ''degrees_east''\<rparr>"

text \<open>A day with one scan of shape \<open>(3, 2)\<close> under the \<open>2 \<times> 2\<close> grid.\<close>

definition store_tall :: remote where
  "store_tall =
     \<lparr>blob_names = Some [name1],
      http = web [(name1, scan [[1, 2], [3, 4], [5, 6]] ''mm'')]\<rparr>"

definition name3 :: string where
  "name3 = ''rain_rate/2020/04/09/NPR.GEO.GHE.v1.S202004090030.nc.gz''"

text \<open>The same day with a second scan that is not gzip data, and a third scan after it.\<close>

definition store_corrupt :: remote where
  "store_corrupt =
     \<lparr>blob_names = Some [name1, name2, name3],
      http = web [(name1, scan [[1, -1], [0, 2]] ''mm''), (name2, Not_gzip),
                  (name3, scan [[3, 4], [-1, -1]] ''mm'')]\<rparr>"

text \<open>A day with one scan of shape \<open>(1, 2)\<close> under the \<open>2 \<times> 2\<close> grid.\<close>

definition store_row :: remote where
  "store_row =
     \<lparr>blob_names = Some [name1],
      http = web [(name1, scan [[5, -1]] ''mm'')]\<rparr>"

text \<open>A day with one scan that holds a NaN.\<close>

definition store_nan :: remote where
  "store_nan =
     \<lparr>blob_names = Some [name1],
      http = web [(name1, scan [[1, NaN], [0, 2]] ''mm'')]\<rparr>"

text \<open>A container that holds the grid and no scan of the selected day.\<close>

definition store_empty :: remote where
  "store_empty =
     \<lparr>blob_names = Some [''NPR.GEO.GHE.v1.Navigation.netcdf.gz''],
      http = web []\<rparr>"

section \<open>Floating-point cells: comparison and sum\<close>

lemma f64_zero_le_zero: "(0::f64) \<le> 0"
  by (simp add: less_eq_f64_def zero_f64_def)

lemma f64_mask: "(if x < 0 then 0 else x) = max x (0::f64)"
  by (cases x) (auto simp add: max_def less_f64_def less_eq_f64_def zero_f64_def)

lemma f64_max0_nonneg: "x \<noteq> NaN \<Longrightarrow> (0::f64) \<le> max x 0"
  by (cases x) (auto simp add: max_def less_eq_f64_def zero_f64_def)

lemma f64_add_nonneg: "(0::f64) \<le> x \<Longrightarrow> 0 \<le> y \<Longrightarrow> 0 \<le> x + y"
  by (cases x; cases y) (simp_all add: less_eq_f64_def zero_f64_def plus_f64_def)

lemma f64_le_add: "(0::f64) \<le> x \<Longrightarrow> 0 \<le> c \<Longrightarrow> x \<le> x + c"
  by (cases x; cases c) (simp_all add: less_eq_f64_def zero_f64_def plus_f64_def)

lemma f64_plus_Num: "Num a + Num b = Num (a + b)"
  by (simp add: plus_f64_def)

lemma f64_numeral: "numeral n = Num (numeral n)"
proof (induction n)
  case One
  show ?case by (simp add: one_f64_def)
next
  case (Bit0 n)
  have "numeral (num.Bit0 n) = Num (numeral n) + Num (numeral n)"
    by (simp only: numeral_Bit0 Bit0)
  also have "\<dots> = Num (numeral (num.Bit0 n))"
    by (simp only: f64_plus_Num numeral_Bit0)
  finally show ?case .
next
  case (Bit1 n)
  have "numeral (num.Bit1 n) = Num (numeral n) + Num (numeral n) + Num 1"
    by (simp only: numeral_Bit1 Bit1 one_f64_def)
  also have "\<dots> = Num (numeral (num.Bit1 n))"
    by (simp only: f64_plus_Num numeral_Bit1)
  finally show ?case .
qed

lemma f64_uminus_Num: "- Num a = Num (- a)"
  by (simp add: uminus_f64_def)

lemma f64_le_Num: "(Num a \<le> Num b) = (a \<le> b)"
  by (simp add: less_eq_f64_def)

lemma f64_max_Num: "max (Num a) (Num b) = Num (max a b)"
  by (simp add: max_def less_eq_f64_def)

lemmas f64_eval =
  f64_numeral zero_f64_def one_f64_def f64_plus_Num f64_uminus_Num f64_le_Num f64_max_Num

lemma nan_min_nonneg: "(0::f64) \<le> x \<Longrightarrow> 0 \<le> y \<Longrightarrow> 0 \<le> nan_min x y"
  by (cases x; cases y) (simp_all add: less_eq_f64_def zero_f64_def nan_min_def)

section \<open>Arrays: shapes, cells and broadcasting\<close>

lemma stretch_same: "length xs = n \<Longrightarrow> stretch n xs = xs"
  by (simp add: stretch_def)

lemma wf_array_row: "wf_array a \<Longrightarrow> i < nrows a \<Longrightarrow> length (rows a ! i) = ncols a"
  by (simp add: wf_array_def nrows_def list_all_length)

lemma map_stretch_wf: "wf_array a \<Longrightarrow> map (stretch (ncols a)) (rows a) = rows a"
  by (simp add: wf_array_def list_all_iff stretch_def map_idI)

lemma broadcast_to_same: "wf_array a \<Longrightarrow> broadcast_to (shape a) a = a"
  by (simp add: broadcast_to_def shape_def map_stretch_wf stretch_same nrows_def)

lemma np_add_same_shape:
  assumes "wf_array a" "wf_array b" "shape a = shape b"
  shows "np_add a b = Inr \<lparr>ncols = ncols a, rows = map2 (map2 (+)) (rows a) (rows b)\<rparr>"
proof -
  from assms(3) have n: "nrows b = nrows a" and c: "ncols b = ncols a"
    by (simp_all add: shape_def)
  have "broadcast_to (nrows a, ncols a) a = a"
    using broadcast_to_same [OF assms(1)] by (simp add: shape_def)
  moreover have "broadcast_to (nrows a, ncols a) b = b"
    using broadcast_to_same [OF assms(2)] by (simp add: shape_def n c)
  ultimately show ?thesis
    by (simp add: np_add_def broadcast_dim_def n c)
qed

lemma wf_zero_negative: "wf_array (zero_negative a) = wf_array a"
  by (simp add: wf_array_def zero_negative_def list_all_iff)

lemma shape_zero_negative: "shape (zero_negative a) = shape a"
  by (simp add: shape_def nrows_def zero_negative_def)

lemma cell_zero_negative:
  "i < nrows a \<Longrightarrow> j < length (rows a ! i) \<Longrightarrow> cell (zero_negative a) i j = max (cell a i j) 0"
  by (simp add: cell_def zero_negative_def nrows_def f64_mask)

lemma nonneg_zero_negative: "nan_free a \<Longrightarrow> nonneg (zero_negative a)"
  by (auto simp add: nonneg_def nan_free_def zero_negative_def list_all_iff f64_mask f64_max0_nonneg)

lemma nonneg_cell:
  "nonneg a \<Longrightarrow> i < nrows a \<Longrightarrow> j < length (rows a ! i) \<Longrightarrow> 0 \<le> cell a i j"
  by (simp add: nonneg_def nrows_def cell_def list_all_length)

lemma nrows_zeros: "nrows (np_zeros s) = fst s" and ncols_zeros: "ncols (np_zeros s) = snd s"
  by (simp_all add: np_zeros_def nrows_def)

lemma shape_zeros: "shape (np_zeros s) = s"
  by (simp add: shape_def nrows_zeros ncols_zeros)

lemma wf_zeros: "wf_array (np_zeros s)"
  by (simp add: wf_array_def np_zeros_def list_all_iff)

lemma nonneg_zeros: "nonneg (np_zeros s)"
  by (simp add: nonneg_def np_zeros_def list_all_iff f64_zero_le_zero)

lemma length_stretch: "length xs = n \<or> length xs = 1 \<Longrightarrow> length (stretch n xs) = n"
  by (auto simp add: stretch_def)

lemma nth_stretch:
  "length xs = n \<or> length xs = 1 \<Longrightarrow> i < n \<Longrightarrow>
   stretch n xs ! i = xs ! (if length xs = n then i else 0)"
  by (cases xs) (auto simp add: stretch_def)

lemma list_all_stretch:
  "list_all P xs \<Longrightarrow> length xs = n \<or> length xs = 1 \<Longrightarrow> list_all P (stretch n xs)"
  by (cases xs) (auto simp add: stretch_def list_all_iff)

lemma list_all_map2:
  "list_all P xs \<Longrightarrow> list_all Q ys \<Longrightarrow> (\<And>x y. P x \<Longrightarrow> Q y \<Longrightarrow> S (f x y)) \<Longrightarrow>
   list_all S (map2 f xs ys)"
proof (induction xs arbitrary: ys)
  case Nil
  then show ?case by simp
next
  case (Cons x xs)
  then show ?case by (cases ys) simp_all
qed

text \<open>The broadcast of a well-formed array to a shape its own goes together with.\<close>

lemma broadcast_to_rows:
  assumes "wf_array a" "nrows a = h \<or> nrows a = 1" "ncols a = w \<or> ncols a = 1"
  shows "length (rows (broadcast_to (h, w) a)) = h"
    and "list_all (\<lambda>r. length r = w) (rows (broadcast_to (h, w) a))"
proof -
  have 1: "list_all (\<lambda>r. length r = w) (map (stretch w) (rows a))"
    using assms(1,3) by (auto simp add: wf_array_def list_all_iff length_stretch)
  show "length (rows (broadcast_to (h, w) a)) = h"
    using assms(2) by (simp add: broadcast_to_def nrows_def length_stretch)
  show "list_all (\<lambda>r. length r = w) (rows (broadcast_to (h, w) a))"
    using 1 assms(2) by (simp add: broadcast_to_def nrows_def list_all_stretch)
qed

lemma cell_broadcast_to:
  assumes "wf_array a" "nrows a = h \<or> nrows a = 1" "ncols a = w \<or> ncols a = 1"
    and "i < h" "j < w"
  shows "cell (broadcast_to (h, w) a) i j =
         cell a (if nrows a = h then i else 0) (if ncols a = w then j else 0)"
proof -
  let ?i = "if nrows a = h then i else 0"
  have i: "?i < nrows a" using assms(2,4) by auto
  have "rows (broadcast_to (h, w) a) ! i = map (stretch w) (rows a) ! ?i"
    using assms(2,4) nth_stretch [of "map (stretch w) (rows a)" h i]
    by (simp add: broadcast_to_def nrows_def)
  also have "\<dots> = stretch w (rows a ! ?i)"
    using i by (simp add: nrows_def)
  finally have "cell (broadcast_to (h, w) a) i j = stretch w (rows a ! ?i) ! j"
    by (simp add: cell_def)
  moreover have "length (rows a ! ?i) = ncols a"
    using assms(1) i by (rule wf_array_row)
  ultimately show ?thesis
    using assms(3,5) nth_stretch [of "rows a ! ?i" w j] by (simp add: cell_def)
qed

lemma nonneg_broadcast_to:
  assumes "wf_array a" "nrows a = h \<or> nrows a = 1" "ncols a = w \<or> ncols a = 1" "nonneg a"
  shows "nonneg (broadcast_to (h, w) a)"
proof -
  have "list_all (\<lambda>x. 0 \<le> x) (stretch w r)" if "r \<in> set (rows a)" for r
  proof -
    from that assms(1) have "length r = ncols a"
      by (simp add: wf_array_def list_all_iff)
    moreover from that assms(4) have "list_all (\<lambda>x. 0 \<le> x) r"
      by (simp add: nonneg_def list_all_iff)
    ultimately show ?thesis
      using assms(3) by (simp add: list_all_stretch)
  qed
  then have "list_all (list_all (\<lambda>x. 0 \<le> x)) (map (stretch w) (rows a))"
    by (simp add: list_all_iff)
  then show ?thesis
    using assms(2) by (simp add: nonneg_def broadcast_to_def nrows_def list_all_stretch)
qed

lemma broadcast_dim_Some:
  "broadcast_dim m n = Some k \<Longrightarrow> (m = k \<or> m = 1) \<and> (n = k \<or> n = 1)"
  by (auto simp add: broadcast_dim_def split: if_splits)

lemma np_add_ValueError:
  "broadcast_dim (nrows a) (nrows b) = None \<or> broadcast_dim (ncols a) (ncols b) = None \<Longrightarrow>
   np_add a b = Inl ValueError"
  by (auto simp add: np_add_def split: option.splits)

lemma np_add_Inr:
  "broadcast_dim (nrows a) (nrows b) = Some h \<Longrightarrow> broadcast_dim (ncols a) (ncols b) = Some w \<Longrightarrow>
   np_add a b = Inr \<lparr>ncols = w, rows = map2 (map2 (+)) (rows (broadcast_to (h, w) a))
                                                      (rows (broadcast_to (h, w) b))\<rparr>"
  by (simp add: np_add_def)

lemma np_add_InrD:
  assumes "np_add a b = Inr r"
  shows "broadcast_dim (nrows a) (nrows b) = Some (nrows r)"
    and "broadcast_dim (ncols a) (ncols b) = Some (ncols r)"
    and "rows r = map2 (map2 (+)) (rows (broadcast_to (shape r) a)) (rows (broadcast_to (shape r) b))"
proof -
  from assms obtain h w where h: "broadcast_dim (nrows a) (nrows b) = Some h"
    and w: "broadcast_dim (ncols a) (ncols b) = Some w"
    and r: "r = \<lparr>ncols = w, rows = map2 (map2 (+)) (rows (broadcast_to (h, w) a))
                                                     (rows (broadcast_to (h, w) b))\<rparr>"
    by (auto simp add: np_add_def split: option.splits)
  from h have "length (stretch h (map (stretch w) (rows a))) = h"
    by (auto simp add: nrows_def length_stretch dest!: broadcast_dim_Some)
  moreover from h have "length (stretch h (map (stretch w) (rows b))) = h"
    by (auto simp add: nrows_def length_stretch dest!: broadcast_dim_Some)
  ultimately have n: "nrows r = h"
    by (simp add: r nrows_def broadcast_to_def)
  have c: "ncols r = w" by (simp add: r)
  show "broadcast_dim (nrows a) (nrows b) = Some (nrows r)" using h n by simp
  show "broadcast_dim (ncols a) (ncols b) = Some (ncols r)" using w c by simp
  show "rows r = map2 (map2 (+)) (rows (broadcast_to (shape r) a)) (rows (broadcast_to (shape r) b))"
    using n c by (simp add: shape_def) (simp add: r)
qed

lemma np_add_wf:
  assumes "np_add a b = Inr r" "wf_array a" "wf_array b"
  shows "wf_array r"
proof -
  note d = np_add_InrD [OF assms(1)]
  from d(1,2) have a: "nrows a = nrows r \<or> nrows a = 1" "ncols a = ncols r \<or> ncols a = 1"
    and b: "nrows b = nrows r \<or> nrows b = 1" "ncols b = ncols r \<or> ncols b = 1"
    by (auto dest!: broadcast_dim_Some)
  have "list_all (\<lambda>r'. length r' = ncols r) (rows (broadcast_to (nrows r, ncols r) a))"
    using assms(2) a by (rule broadcast_to_rows)
  moreover have "list_all (\<lambda>r'. length r' = ncols r) (rows (broadcast_to (nrows r, ncols r) b))"
    using assms(3) b by (rule broadcast_to_rows)
  ultimately have "list_all (\<lambda>r'. length r' = ncols r)
      (map2 (map2 (+)) (rows (broadcast_to (nrows r, ncols r) a)) (rows (broadcast_to (nrows r, ncols r) b)))"
    by (rule list_all_map2) simp
  then show ?thesis
    using d(3) by (simp add: wf_array_def shape_def)
qed

lemma np_add_nonneg:
  assumes "np_add a b = Inr r" "wf_array a" "wf_array b" "nonneg a" "nonneg b"
  shows "nonneg r"
proof -
  note d = np_add_InrD [OF assms(1)]
  from d(1,2) have a: "nrows a = nrows r \<or> nrows a = 1" "ncols a = ncols r \<or> ncols a = 1"
    and b: "nrows b = nrows r \<or> nrows b = 1" "ncols b = ncols r \<or> ncols b = 1"
    by (auto dest!: broadcast_dim_Some)
  have "nonneg (broadcast_to (nrows r, ncols r) a)"
    using assms(2) a assms(4) by (rule nonneg_broadcast_to)
  moreover have "nonneg (broadcast_to (nrows r, ncols r) b)"
    using assms(3) b assms(5) by (rule nonneg_broadcast_to)
  ultimately have "list_all (list_all (\<lambda>x. 0 \<le> x))
      (map2 (map2 (+)) (rows (broadcast_to (nrows r, ncols r) a)) (rows (broadcast_to (nrows r, ncols r) b)))"
    unfolding nonneg_def
    by (rule list_all_map2) (erule (1) list_all_map2, erule (1) f64_add_nonneg)
  then show ?thesis
    using d(3) by (simp add: nonneg_def shape_def)
qed

lemma np_add_cell:
  assumes "np_add a b = Inr r" "wf_array a" "wf_array b" "i < nrows r" "j < ncols r"
  shows "cell r i j =
         cell a (if nrows a = nrows r then i else 0) (if ncols a = ncols r then j else 0) +
         cell b (if nrows b = nrows r then i else 0) (if ncols b = ncols r then j else 0)"
proof -
  note d = np_add_InrD [OF assms(1)]
  let ?A = "broadcast_to (nrows r, ncols r) a" and ?B = "broadcast_to (nrows r, ncols r) b"
  from d(1,2) have a: "nrows a = nrows r \<or> nrows a = 1" "ncols a = ncols r \<or> ncols a = 1"
    and b: "nrows b = nrows r \<or> nrows b = 1" "ncols b = ncols r \<or> ncols b = 1"
    by (auto dest!: broadcast_dim_Some)
  have la: "length (rows ?A) = nrows r" and wa: "list_all (\<lambda>r'. length r' = ncols r) (rows ?A)"
    using broadcast_to_rows [OF assms(2) a] by simp_all
  have lb: "length (rows ?B) = nrows r" and wb: "list_all (\<lambda>r'. length r' = ncols r) (rows ?B)"
    using broadcast_to_rows [OF assms(3) b] by simp_all
  have ra: "length (rows ?A ! i) = ncols r"
    using wa la assms(4) by (simp add: list_all_length)
  have rb: "length (rows ?B ! i) = ncols r"
    using wb lb assms(4) by (simp add: list_all_length)
  have "cell r i j = cell ?A i j + cell ?B i j"
    using d(3) la lb ra rb assms(4,5) by (simp add: cell_def shape_def)
  then show ?thesis
    using cell_broadcast_to [OF assms(2) a assms(4,5)] cell_broadcast_to [OF assms(3) b assms(4,5)]
    by simp
qed

lemma array_eqI:
  assumes "wf_array a" "wf_array b" "shape a = shape b"
    and "\<And>i j. i < nrows a \<Longrightarrow> j < ncols a \<Longrightarrow> cell a i j = cell b i j"
  shows "a = b"
proof -
  from assms(3) have n: "nrows b = nrows a" and c: "ncols b = ncols a"
    by (simp_all add: shape_def)
  have "rows a = rows b"
  proof (rule nth_equalityI)
    show "length (rows a) = length (rows b)" using n by (simp add: nrows_def)
  next
    fix i assume i: "i < length (rows a)"
    then have la: "length (rows a ! i) = ncols a"
      using assms(1) by (simp add: wf_array_row nrows_def)
    from i n have lb: "length (rows b ! i) = ncols a"
      using assms(2) c wf_array_row [of b i] by (simp add: nrows_def)
    show "rows a ! i = rows b ! i"
    proof (rule nth_equalityI)
      show "length (rows a ! i) = length (rows b ! i)" using la lb by simp
    next
      fix j assume "j < length (rows a ! i)"
      then show "rows a ! i ! j = rows b ! i ! j"
        using assms(4) [of i j] i la by (simp add: cell_def nrows_def)
    qed
  qed
  then show ?thesis using c by simp
qed

section \<open>The loop body and the loop\<close>

lemma download_url_requests: "requests (fst (download_url R url w)) = requests w @ [url]"
  by (simp add: download_url_def Let_def split: option.splits)

lemma download_url_fails: "http R url = None \<Longrightarrow> snd (download_url R url w) = Inl URLError"
  by (simp add: download_url_def Let_def)

lemma download_url_reads:
  "http R url = Some b \<Longrightarrow>
   \<exists>w1 f. download_url R url w = (w1, Inr f) \<and> files w1 f = Some b"
  by (simp add: download_url_def Let_def)

text \<open>The loop body, by what the blob offers.\<close>

lemma loop_body_requests: "requests (fst (loop_body R url w v)) = requests w @ [url]"
  using download_url_requests [of R url w]
  by (auto simp add: loop_body_def split: prod.splits sum.splits)

lemma loop_body_sample:
  assumes "sample_at R url = Some (s, u)"
  shows "\<exists>d. snd (loop_body R url w v) =
           (case np_add (rainfall v) (zero_negative s) of
              Inl e \<Rightarrow> Inl e
            | Inr r \<Rightarrow> Inr (v\<lparr>variable_description := Some d, rain_units := Some u, rainfall := r\<rparr>))"
proof -
  from assms obtain d var where b: "http R url = Some (Gzip (Netcdf d))"
    and var: "map_of d ''rain'' = Some var" and s: "array var = s" and u: "units var = Some u"
    by (auto simp add: sample_at_def split: option.splits bytes.splits payload.splits)
  from download_url_reads [OF b] obtain w1 f where
    dl: "download_url R url w = (w1, Inr f)" and f: "files w1 f = Some (Gzip (Netcdf d))"
    by blast
  have "open_dataset w1 f = Inr d"
    by (simp add: open_dataset_def gzip_read_def netCDF4_Dataset_def f)
  then show ?thesis
    using dl var s u
    by (auto simp add: loop_body_def getitem_def get_units_def split: sum.splits)
qed

lemma loop_body_no_sample:
  assumes "sample_at R url = None"
  shows "\<exists>e. snd (loop_body R url w v) = Inl e \<and> failure_at R url = Some e"
proof (cases "http R url")
  case None
  then show ?thesis
    using download_url_fails [of R url w]
    by (cases "download_url R url w") (auto simp add: loop_body_def failure_at_def)
next
  case (Some b)
  from download_url_reads [OF Some] obtain w1 f where
    dl: "download_url R url w = (w1, Inr f)" and f: "files w1 f = Some b"
    by blast
  from assms Some dl f show ?thesis
    by (auto simp add: loop_body_def sample_at_def failure_at_def open_dataset_def gzip_read_def
        netCDF4_Dataset_def getitem_def get_units_def
        split: option.splits bytes.splits payload.splits)
qed

lemma loop_body_InrD:
  assumes "loop_body R url w v = (w1, Inr v1)"
  shows "\<exists>s u. sample_at R url = Some (s, u) \<and>
           np_add (rainfall v) (zero_negative s) = Inr (rainfall v1) \<and>
           rain_units v1 = Some u \<and> n_valid v1 = n_valid v"
proof (cases "sample_at R url")
  case None
  from loop_body_no_sample [OF None, of w v] assms show ?thesis by auto
next
  case (Some p)
  obtain s u where p: "p = (s, u)" by (cases p)
  from loop_body_sample [OF Some [unfolded p], of w v] assms obtain d where
    d: "Inr v1 = (case np_add (rainfall v) (zero_negative s) of
              Inl e \<Rightarrow> Inl e
            | Inr r \<Rightarrow> Inr (v\<lparr>variable_description := Some d, rain_units := Some u, rainfall := r\<rparr>))"
    by auto
  show ?thesis
  proof (cases "np_add (rainfall v) (zero_negative s)")
    case (Inl e)
    with d show ?thesis by simp
  next
    case (Inr r)
    with d have "v1 = v\<lparr>variable_description := Some d, rain_units := Some u, rainfall := r\<rparr>"
      by simp
    with Inr show ?thesis by (simp add: Some p)
  qed
qed

text \<open>The loop.\<close>

lemma sum_loop_append:
  "sum_loop R (us @ vs) w v =
     (case sum_loop R us w v of
        (w1, Inl e) \<Rightarrow> (w1, Inl e)
      | (w1, Inr v1) \<Rightarrow> sum_loop R vs w1 v1)"
  by (induction us arbitrary: w v) (auto split: prod.splits sum.splits)

lemma sum_loop_requests_ok:
  "sum_loop R us w v = (w1, Inr v1) \<Longrightarrow> requests w1 = requests w @ us"
proof (induction us arbitrary: w v)
  case Nil
  then show ?case by simp
next
  case (Cons u us)
  from Cons.prems obtain w' v' where b: "loop_body R u w v = (w', Inr v')"
    and r: "sum_loop R us w' v' = (w1, Inr v1)"
    by (auto split: prod.splits sum.splits)
  from loop_body_requests [of R u w v] b have "requests w' = requests w @ [u]" by simp
  with Cons.IH [OF r] show ?case by simp
qed

lemma loop_body_sample_pair:
  assumes "sample_at R url = Some (s, u)" "np_add (rainfall v) (zero_negative s) = Inr r"
  shows "\<exists>w1 d. loop_body R url w v =
           (w1, Inr (v\<lparr>variable_description := Some d, rain_units := Some u, rainfall := r\<rparr>))"
  using loop_body_sample [OF assms(1), of w v] assms(2)
  by (cases "loop_body R url w v") auto

lemma loop_body_same_shape:
  assumes "sample_at R url = Some (s, u)"
    and "wf_array s" and "wf_array (rainfall v)"
    and "shape s = shape (rainfall v)"
  shows "\<exists>w1 v1. loop_body R url w v = (w1, Inr v1) \<and>
           wf_array (rainfall v1) \<and> shape (rainfall v1) = shape (rainfall v) \<and>
           (\<forall>i<nrows (rainfall v). \<forall>j<ncols (rainfall v).
              cell (rainfall v1) i j = cell (rainfall v) i j + max (cell s i j) 0)"
proof -
  let ?A = "rainfall v" and ?S = "zero_negative s"
  have wfS: "wf_array ?S" using assms(2) by (simp add: wf_zero_negative)
  have shS: "shape ?A = shape ?S" using assms(4) by (simp add: shape_zero_negative)
  from np_add_same_shape [OF assms(3) wfS shS] obtain r where r: "np_add ?A ?S = Inr r"
    by simp
  from loop_body_sample [OF assms(1), of w v] r obtain d where
    "snd (loop_body R url w v) =
       Inr (v\<lparr>variable_description := Some d, rain_units := Some u, rainfall := r\<rparr>)"
    by auto
  then obtain w1 v1 where b: "loop_body R url w v = (w1, Inr v1)" and v1: "rainfall v1 = r"
    by (cases "loop_body R url w v") auto
  from np_add_InrD(1,2) [OF r] shS have n: "nrows r = nrows ?A" and c: "ncols r = ncols ?A"
    by (simp_all add: shape_def broadcast_dim_def)
  have wfr: "wf_array r" using r assms(3) wfS by (rule np_add_wf)
  have "cell r i j = cell ?A i j + max (cell s i j) 0" if "i < nrows ?A" "j < ncols ?A" for i j
  proof -
    from that assms(4) have i: "i < nrows s" and j: "j < length (rows s ! i)"
      using wf_array_row [OF assms(2), of i] by (simp_all add: shape_def)
    from shS have "nrows ?S = nrows ?A" "ncols ?S = ncols ?A" by (simp_all add: shape_def)
    with np_add_cell [OF r assms(3) wfS, of i j] that n c
    have "cell r i j = cell ?A i j + cell ?S i j" by simp
    with cell_zero_negative [OF i j] show ?thesis by simp
  qed
  with b v1 wfr n c show ?thesis by (auto simp add: shape_def)
qed

lemma samples_of_shape_Cons:
  "samples_of_shape R shp (u # us) \<Longrightarrow>
   (\<exists>s un. sample_at R u = Some (s, un) \<and> wf_array s \<and> shape s = shp) \<and> samples_of_shape R shp us"
  by (auto simp add: samples_of_shape_def split: option.splits)

lemma samples_of_shape_mset:
  "mset us' = mset us \<Longrightarrow> samples_of_shape R shp us \<Longrightarrow> samples_of_shape R shp us'"
  by (auto simp add: samples_of_shape_def list_all_iff dest: mset_eq_setD)

text \<open>
  Over samples of the running sum's shape the loop succeeds, and every cell grows by the
  sum of the samples' cells, negative values counted as zero.
\<close>

lemma sum_loop_same_shape:
  assumes "samples_of_shape R (shape (rainfall v)) us" "wf_array (rainfall v)"
  shows "\<exists>w1 v1. sum_loop R us w v = (w1, Inr v1) \<and>
           wf_array (rainfall v1) \<and> shape (rainfall v1) = shape (rainfall v) \<and>
           (\<forall>i<nrows (rainfall v). \<forall>j<ncols (rainfall v).
              cell (rainfall v1) i j =
              cell (rainfall v) i j + (\<Sum>u\<leftarrow>us. max (cell (fst (the (sample_at R u))) i j) 0))"
  using assms
proof (induction us arbitrary: w v)
  case Nil
  then show ?case by simp
next
  case (Cons u us)
  from samples_of_shape_Cons [OF Cons.prems(1)] obtain s un where
    s: "sample_at R u = Some (s, un)" "wf_array s" "shape s = shape (rainfall v)"
    and rest: "samples_of_shape R (shape (rainfall v)) us"
    by blast
  from loop_body_same_shape [OF s(1,2) Cons.prems(2) s(3), of w] obtain w' v' where
    b: "loop_body R u w v = (w', Inr v')" and wf': "wf_array (rainfall v')"
    and sh': "shape (rainfall v') = shape (rainfall v)"
    and c': "\<forall>i<nrows (rainfall v). \<forall>j<ncols (rainfall v).
               cell (rainfall v') i j = cell (rainfall v) i j + max (cell s i j) 0"
    by blast
  from rest sh' have "samples_of_shape R (shape (rainfall v')) us" by simp
  from Cons.IH [OF this wf', of w'] obtain w1 v1 where
    l: "sum_loop R us w' v' = (w1, Inr v1)" and wf1: "wf_array (rainfall v1)"
    and sh1: "shape (rainfall v1) = shape (rainfall v')"
    and c1: "\<forall>i<nrows (rainfall v'). \<forall>j<ncols (rainfall v').
               cell (rainfall v1) i j =
               cell (rainfall v') i j + (\<Sum>u\<leftarrow>us. max (cell (fst (the (sample_at R u))) i j) 0)"
    by blast
  from sh' have n: "nrows (rainfall v') = nrows (rainfall v)" "ncols (rainfall v') = ncols (rainfall v)"
    by (simp_all add: shape_def)
  have "sum_loop R (u # us) w v = (w1, Inr v1)" using b l by simp
  moreover have "shape (rainfall v1) = shape (rainfall v)" using sh1 sh' by simp
  moreover have "\<forall>i<nrows (rainfall v). \<forall>j<ncols (rainfall v).
      cell (rainfall v1) i j =
      cell (rainfall v) i j + (\<Sum>u\<leftarrow>u # us. max (cell (fst (the (sample_at R u))) i j) 0)"
    using c' c1 n s(1) by (simp add: add.assoc)
  ultimately show ?case using wf1 by blast
qed

lemma sum_loop_permuted:
  assumes "mset us' = mset us" "samples_of_shape R (shape (rainfall v)) us" "wf_array (rainfall v)"
  shows "\<exists>w1 v1 w2 v2. sum_loop R us w v = (w1, Inr v1) \<and> sum_loop R us' w v = (w2, Inr v2) \<and>
           rainfall v1 = rainfall v2"
proof -
  let ?f = "\<lambda>i j u. max (cell (fst (the (sample_at R u))) i j) 0"
  from sum_loop_same_shape [OF assms(2,3), of w] obtain w1 v1 where
    l1: "sum_loop R us w v = (w1, Inr v1)" and wf1: "wf_array (rainfall v1)"
    and sh1: "shape (rainfall v1) = shape (rainfall v)"
    and c1: "\<forall>i<nrows (rainfall v). \<forall>j<ncols (rainfall v).
               cell (rainfall v1) i j = cell (rainfall v) i j + (\<Sum>u\<leftarrow>us. ?f i j u)"
    by blast
  from samples_of_shape_mset [OF assms(1,2)]
  have "samples_of_shape R (shape (rainfall v)) us'" .
  from sum_loop_same_shape [OF this assms(3), of w] obtain w2 v2 where
    l2: "sum_loop R us' w v = (w2, Inr v2)" and wf2: "wf_array (rainfall v2)"
    and sh2: "shape (rainfall v2) = shape (rainfall v)"
    and c2: "\<forall>i<nrows (rainfall v). \<forall>j<ncols (rainfall v).
               cell (rainfall v2) i j = cell (rainfall v) i j + (\<Sum>u\<leftarrow>us'. ?f i j u)"
    by blast
  have perm: "(\<Sum>u\<leftarrow>us. ?f i j u) = (\<Sum>u\<leftarrow>us'. ?f i j u)" for i j
  proof -
    have "mset (map (?f i j) us) = mset (map (?f i j) us')"
      using assms(1) by simp
    then have "sum_mset (mset (map (?f i j) us)) = sum_mset (mset (map (?f i j) us'))"
      by simp
    then show ?thesis by (simp only: sum_mset_sum_list)
  qed
  from sh1 have n: "nrows (rainfall v1) = nrows (rainfall v)" "ncols (rainfall v1) = ncols (rainfall v)"
    by (simp_all add: shape_def)
  have "rainfall v1 = rainfall v2"
  proof (rule array_eqI [OF wf1 wf2])
    show "shape (rainfall v1) = shape (rainfall v2)" using sh1 sh2 by simp
  next
    fix i j assume "i < nrows (rainfall v1)" "j < ncols (rainfall v1)"
    with n c1 c2 perm [of i j] show "cell (rainfall v1) i j = cell (rainfall v2) i j" by simp
  qed
  with l1 l2 show ?thesis by blast
qed

lemma rainfall_init_vars: "rainfall (init_vars lat) = np_zeros (shape (array lat))"
  by (simp add: init_vars_def)

lemma read_and_sum_Inl:
  "sum_loop R urls w (init_vars lat) = (w1, Inl e) \<Longrightarrow> read_and_sum R lat urls w = (w1, Inl e)"
  by (simp add: read_and_sum_def)

lemma read_and_sum_InrD:
  assumes "read_and_sum R lat urls w = (w1, Inr (v, mn, mx, u))"
  shows "sum_loop R urls w (init_vars lat) = (w1, Inr v)"
    and "np_min (rainfall v) = Inr mn" and "np_max (rainfall v) = Inr mx"
    and "rain_units v = Some u"
  using assms
  by (auto simp add: read_and_sum_def print_range_def split: prod.splits sum.splits option.splits)

lemma sum_loop_stops:
  assumes "k < length urls"
    and "sum_loop R (take k urls) w v = (wk, Inr vk)"
    and "sample_at R (urls ! k) = None"
  shows "\<exists>e w1. sum_loop R urls w v = (w1, Inl e) \<and>
           failure_at R (urls ! k) = Some e \<and>
           requests w1 = requests w @ take (Suc k) urls"
proof -
  from loop_body_no_sample [OF assms(3), of wk vk] obtain e w1 where
    b: "loop_body R (urls ! k) wk vk = (w1, Inl e)"
    and e: "failure_at R (urls ! k) = Some e"
    by (cases "loop_body R (urls ! k) wk vk") auto
  have "requests w1 = requests wk @ [urls ! k]"
    using loop_body_requests [of R "urls ! k" wk vk] b by simp
  moreover have "requests wk = requests w @ take k urls"
    using assms(2) by (rule sum_loop_requests_ok)
  ultimately have r: "requests w1 = requests w @ take (Suc k) urls"
    using assms(1) by (simp add: take_Suc_conv_app_nth)
  have "urls = take k urls @ urls ! k # drop (Suc k) urls"
    using assms(1) by (rule id_take_nth_drop)
  then have "sum_loop R urls w v = sum_loop R (take k urls @ urls ! k # drop (Suc k) urls) w v"
    by simp
  also have "\<dots> = (w1, Inl e)"
    by (simp only: sum_loop_append assms(2)) (simp add: b)
  finally show ?thesis using e r by blast
qed

lemma read_and_sum_two_samples:
  assumes "shape (array lat_grid_raw) = (2, 2)"
    and "sample_at R url1 = Some (\<lparr>ncols = 2, rows = [[1, -1], [0, 2]]\<rparr>, u1)"
    and "sample_at R url2 = Some (\<lparr>ncols = 2, rows = [[3, 4], [-1, -1]]\<rparr>, u2)"
  shows "\<exists>w1 v. read_and_sum R lat_grid_raw [url1, url2] w = (w1, Inr (v, 0, 4, u2)) \<and>
           rainfall v = \<lparr>ncols = 2, rows = [[4, 4], [0, 2]]\<rparr>"
proof -
  let ?S1 = "\<lparr>ncols = 2, rows = [[1, -1], [0, 2]]\<rparr>"
  let ?S2 = "\<lparr>ncols = 2, rows = [[3, 4], [-1, -1]]\<rparr>"
  let ?A1 = "\<lparr>ncols = 2, rows = [[1, 0], [0, 2]]\<rparr>"
  let ?A2 = "\<lparr>ncols = 2, rows = [[4, 4], [0, 2]]\<rparr>"
  let ?v0 = "init_vars lat_grid_raw"
  have v0: "rainfall ?v0 = np_zeros (2, 2)"
    using assms(1) by (simp add: init_vars_def)
  have a1: "np_add (np_zeros (2, 2)) (zero_negative ?S1) = Inr ?A1" by code_simp
  have a2: "np_add ?A1 (zero_negative ?S2) = Inr ?A2" by code_simp
  have mn: "np_min ?A2 = Inr 0" by code_simp
  have mx: "np_max ?A2 = Inr 4" by code_simp
  from loop_body_sample_pair [OF assms(2), of ?v0 ?A1 w] a1 v0 obtain w1 d1 where
    b1: "loop_body R url1 w ?v0 =
           (w1, Inr (?v0\<lparr>variable_description := Some d1, rain_units := Some u1, rainfall := ?A1\<rparr>))"
    by auto
  let ?v1 = "?v0\<lparr>variable_description := Some d1, rain_units := Some u1, rainfall := ?A1\<rparr>"
  have "np_add (rainfall ?v1) (zero_negative ?S2) = Inr ?A2" using a2 by simp
  from loop_body_sample_pair [OF assms(3) this, of w1] obtain w2 d2 where
    b2: "loop_body R url2 w1 ?v1 =
           (w2, Inr (?v1\<lparr>variable_description := Some d2, rain_units := Some u2, rainfall := ?A2\<rparr>))"
    by auto
  let ?v2 = "?v1\<lparr>variable_description := Some d2, rain_units := Some u2, rainfall := ?A2\<rparr>"
  have "sum_loop R [url1, url2] w ?v0 = (w2, Inr ?v2)"
    by (simp add: b1 b2)
  moreover have "print_range ?v2 = Inr (0, 4, u2)"
    by (simp add: print_range_def mn mx)
  ultimately have "read_and_sum R lat_grid_raw [url1, url2] w = (w2, Inr (?v2, 0, 4, u2))"
    by (simp add: read_and_sum_def)
  then show ?thesis by simp
qed

lemma wf_samples_Cons:
  "wf_samples R (u # us) \<Longrightarrow> wf_samples R [u] \<and> wf_samples R us"
  by (simp add: wf_samples_def)

lemma nan_free_samples_Cons:
  "nan_free_samples R (u # us) \<Longrightarrow> nan_free_samples R [u] \<and> nan_free_samples R us"
  by (simp add: nan_free_samples_def)

lemma loop_body_wf_nonneg:
  assumes "loop_body R url w v = (w1, Inr v1)"
    and "wf_array (rainfall v)" "nonneg (rainfall v)" "wf_samples R [url]"
    and "nan_free_samples R [url]"
  shows "wf_array (rainfall v1)" and "nonneg (rainfall v1)"
proof -
  from loop_body_InrD [OF assms(1)] obtain s u where
    s: "sample_at R url = Some (s, u)"
    and r: "np_add (rainfall v) (zero_negative s) = Inr (rainfall v1)"
    by blast
  from s assms(4) have "wf_array s" by (simp add: wf_samples_def)
  then have wfS: "wf_array (zero_negative s)" by (simp add: wf_zero_negative)
  from s assms(5) have "nan_free s" by (simp add: nan_free_samples_def)
  then have nn: "nonneg (zero_negative s)" by (rule nonneg_zero_negative)
  show "wf_array (rainfall v1)" using r assms(2) wfS by (rule np_add_wf)
  show "nonneg (rainfall v1)"
    using r assms(2) wfS assms(3) nn by (rule np_add_nonneg)
qed

lemma loop_body_monotone:
  assumes "loop_body R url w v = (w1, Inr v1)"
    and "wf_array (rainfall v)" "wf_samples R [url]"
    and "shape (rainfall v1) = shape (rainfall v)"
    and "i < nrows (rainfall v)" "j < ncols (rainfall v)"
    and "nonneg (rainfall v)" "nan_free_samples R [url]"
  shows "cell (rainfall v) i j \<le> cell (rainfall v1) i j"
proof -
  from loop_body_InrD [OF assms(1)] obtain s u where
    s: "sample_at R url = Some (s, u)"
    and r: "np_add (rainfall v) (zero_negative s) = Inr (rainfall v1)"
    by blast
  let ?S = "zero_negative s"
  from s assms(3) have wfs: "wf_array s" by (simp add: wf_samples_def)
  then have wfS: "wf_array ?S" by (simp add: wf_zero_negative)
  from assms(4) have n: "nrows (rainfall v1) = nrows (rainfall v)"
    and c: "ncols (rainfall v1) = ncols (rainfall v)"
    by (simp_all add: shape_def)
  let ?i = "if nrows ?S = nrows (rainfall v1) then i else 0"
  let ?j = "if ncols ?S = ncols (rainfall v1) then j else 0"
  from np_add_InrD(1,2) [OF r]
  have "nrows ?S = nrows (rainfall v1) \<or> nrows ?S = 1" "ncols ?S = ncols (rainfall v1) \<or> ncols ?S = 1"
    by (auto dest!: broadcast_dim_Some)
  with assms(5,6) n c have "?i < nrows ?S" "?j < ncols ?S" by auto
  then have i: "?i < nrows s" and j: "?j < length (rows s ! ?i)"
    using shape_zero_negative [of s] wf_array_row [OF wfs, of ?i]
    by (simp_all add: shape_def)
  from s assms(8) have "nan_free s" by (simp add: nan_free_samples_def)
  then have "nonneg ?S" by (rule nonneg_zero_negative)
  moreover from i j have "?i < nrows ?S" "?j < length (rows ?S ! ?i)"
    by (simp_all add: nrows_def zero_negative_def)
  ultimately have "0 \<le> cell ?S ?i ?j" by (rule nonneg_cell)
  moreover have "0 \<le> cell (rainfall v) i j"
    using assms(7,5) wf_array_row [OF assms(2), of i] assms(6) by (intro nonneg_cell) simp_all
  moreover have "cell (rainfall v1) i j = cell (rainfall v) i j + cell ?S ?i ?j"
    using np_add_cell [OF r assms(2) wfS, of i j] assms(5,6) n c by simp
  ultimately show ?thesis by (simp add: f64_le_add)
qed

lemma sum_loop_wf_nonneg:
  assumes "sum_loop R urls w v = (w1, Inr v1)"
    and "wf_array (rainfall v)" "nonneg (rainfall v)" "wf_samples R urls"
    and "nan_free_samples R urls"
  shows "wf_array (rainfall v1) \<and> nonneg (rainfall v1)"
  using assms
proof (induction urls arbitrary: w v)
  case Nil
  then show ?case by simp
next
  case (Cons u us)
  from Cons.prems(1) obtain w' v' where b: "loop_body R u w v = (w', Inr v')"
    and l: "sum_loop R us w' v' = (w1, Inr v1)"
    by (auto split: prod.splits sum.splits)
  from wf_samples_Cons [OF Cons.prems(4)] have u: "wf_samples R [u]" and us: "wf_samples R us"
    by simp_all
  from nan_free_samples_Cons [OF Cons.prems(5)]
  have nu: "nan_free_samples R [u]" and nus: "nan_free_samples R us"
    by simp_all
  from loop_body_wf_nonneg [OF b Cons.prems(2,3) u nu]
  have "wf_array (rainfall v')" "nonneg (rainfall v')" .
  with Cons.IH [OF l] us nus show ?case by simp
qed

lemma fold_min_nonneg:
  "list_all (\<lambda>x. 0 \<le> x) xs \<Longrightarrow> (0::f64) \<le> x \<Longrightarrow> 0 \<le> fold nan_min xs x"
  by (induction xs arbitrary: x) (simp_all add: nan_min_nonneg)

lemma np_min_nonneg:
  assumes "np_min a = Inr m" "nonneg a"
  shows "0 \<le> m"
proof -
  from assms(2) have "list_all (\<lambda>x. 0 \<le> x) (concat (rows a))"
    by (auto simp add: nonneg_def list_all_iff)
  with assms(1) show ?thesis
    by (auto simp add: np_min_def fold_min_nonneg split: list.splits)
qed

lemma sum_loop_last:
  assumes "urls \<noteq> []" "sum_loop R urls w v = (w1, Inr v1)"
  shows "\<exists>wk vk. sum_loop R (butlast urls) w v = (wk, Inr vk) \<and>
           loop_body R (last urls) wk vk = (w1, Inr v1)"
proof -
  from assms(1) have "urls = butlast urls @ [last urls]" by simp
  then have "sum_loop R (butlast urls @ [last urls]) w v = (w1, Inr v1)"
    using assms(2) by simp
  then show ?thesis
    by (auto simp add: sum_loop_append split: prod.splits sum.splits)
qed

section \<open>Strided selection\<close>

lemma stride_count:
  assumes "0 < (k::nat)"
  shows "Suc ((n - (k - 1) + k - 1) div k) = (Suc n + k - 1) div k"
proof -
  have e2: "(Suc n + k - 1) div k = Suc (n div k)"
  proof -
    have "(n + k) div k = Suc (n div k)" using assms by simp
    then show ?thesis by simp
  qed
  show ?thesis
  proof (cases "k - 1 \<le> n")
    case True
    with assms have e1: "n - (k - 1) + k - 1 = n" by arith
    show ?thesis by (simp only: e1 e2)
  next
    case False
    with assms have 1: "n < k" by arith
    from False assms have "n - (k - 1) + k - 1 = k - 1" by arith
    moreover from assms have "(k - 1) div k = 0" by simp
    moreover from 1 have "n div k = 0" by simp
    ultimately show ?thesis by (simp only: e2)
  qed
qed

lemma length_stride: "0 < k \<Longrightarrow> length (stride k xs) = (length xs + k - 1) div k"
proof (induction k xs rule: stride.induct)
  case (1 k)
  then show ?case by simp
next
  case (2 k x xs)
  have "length (stride k (x # xs)) = Suc (length (stride k (drop (k - 1) xs)))" by simp
  also have "\<dots> = Suc ((length (drop (k - 1) xs) + k - 1) div k)"
    using 2(1) [OF 2(2)] by (rule arg_cong)
  also have "\<dots> = Suc ((length xs - (k - 1) + k - 1) div k)" by (simp only: length_drop)
  also have "\<dots> = (Suc (length xs) + k - 1) div k" using 2(2) by (rule stride_count)
  also have "\<dots> = (length (x # xs) + k - 1) div k" by simp
  finally show ?case .
qed

lemma stride_index: "0 < k \<Longrightarrow> i < (n + k - 1) div k \<Longrightarrow> i * k < (n::nat)"
proof -
  assume k: "0 < k" and "i < (n + k - 1) div k"
  then have "Suc i \<le> (n + k - 1) div k" by simp
  with k have "Suc i * k \<le> n + k - 1" by (simp only: less_eq_div_iff_mult_less_eq)
  with k show ?thesis by simp
qed

lemma nth_stride: "0 < k \<Longrightarrow> i < length (stride k xs) \<Longrightarrow> stride k xs ! i = xs ! (i * k)"
proof (induction k xs arbitrary: i rule: stride.induct)
  case (1 k)
  then show ?case by simp
next
  case (2 k x xs)
  show ?case
  proof (cases i)
    case 0
    then show ?thesis by simp
  next
    case (Suc i')
    with 2(3) have i': "i' < length (stride k (drop (k - 1) xs))" by simp
    then have le: "k - 1 \<le> length xs" by (cases "k - 1 \<le> length xs") simp_all
    from 2(2) have idx: "Suc i' * k = Suc (k - 1 + i' * k)" by (cases k) simp_all
    from 2(1) [OF 2(2) i'] have "stride k (drop (k - 1) xs) ! i' = drop (k - 1) xs ! (i' * k)" .
    also from le have "\<dots> = xs ! (k - 1 + i' * k)" by (rule nth_drop)
    also have "\<dots> = (x # xs) ! (Suc i' * k)" by (simp only: idx nth_Cons_Suc)
    finally show ?thesis using Suc by simp
  qed
qed

lemma shape_decimate:
  "0 < k \<Longrightarrow> shape (decimate k a) = ((nrows a + k - 1) div k, (ncols a + k - 1) div k)"
  by (simp add: shape_def nrows_def decimate_def length_stride)

lemma cell_decimate:
  assumes "0 < k" "wf_array a" "i < (nrows a + k - 1) div k" "j < (ncols a + k - 1) div k"
  shows "cell (decimate k a) i j = cell a (k * i) (k * j)"
proof -
  from assms(1,3) have i: "i < length (stride k (rows a))"
    by (simp add: length_stride nrows_def)
  from assms(1,3) have ik: "i * k < nrows a" by (rule stride_index)
  then have len: "length (rows a ! (i * k)) = ncols a"
    using assms(2) by (simp add: wf_array_row)
  from i have "cell (decimate k a) i j = stride k (stride k (rows a) ! i) ! j"
    by (simp add: cell_def decimate_def)
  also from assms(1) i have "\<dots> = stride k (rows a ! (i * k)) ! j"
    by (simp add: nth_stride)
  also from assms(1,4) len have "\<dots> = rows a ! (i * k) ! (j * k)"
    by (simp add: nth_stride length_stride)
  finally show ?thesis by (simp add: cell_def mult.commute)
qed

lemma set_stride: "set (stride k xs) \<subseteq> set xs"
proof (induction k xs rule: stride.induct)
  case (1 k)
  then show ?case by simp
next
  case (2 k x xs)
  have "set (drop (k - 1) xs) \<subseteq> set xs" by (rule set_drop_subset)
  with 2 have "set (stride k (drop (k - 1) xs)) \<subseteq> set xs" by (rule subset_trans)
  then show ?case by auto
qed

lemma wf_decimate:
  assumes "0 < k" "wf_array a"
  shows "wf_array (decimate k a)"
proof -
  have "length (stride k r) = (ncols a + k - 1) div k" if "r \<in> set (stride k (rows a))" for r
  proof -
    from set_stride that have "r \<in> set (rows a)" by (rule subsetD)
    with assms(2) have "length r = ncols a" by (simp add: wf_array_def list_all_iff)
    with length_stride [OF assms(1), of r] show ?thesis by simp
  qed
  then have "\<forall>r\<in>set (stride k (rows a)). length (stride k r) = (ncols a + k - 1) div k"
    by blast
  then show ?thesis
    by (simp add: wf_array_def decimate_def list_all_iff)
qed

lemma shape_decimate_10:
  "shape (decimate 10 a) = ((nrows a + 9) div 10, (ncols a + 9) div 10)"
  using shape_decimate [of 10 a] by (simp add: add.commute)

lemma cell_decimate_10:
  assumes "wf_array a" "i < (nrows a + 9) div 10" "j < (ncols a + 9) div 10"
  shows "cell (decimate 10 a) i j = cell a (10 * i) (10 * j)"
  using cell_decimate [of 10 a i j] assms by (simp add: add.commute)

lemma downsample_shape_assert:
  "a < length h \<Longrightarrow> shape (h ! a) \<noteq> shape (array lat_grid_raw) \<Longrightarrow>
   downsample h a lat_grid_raw lon_grid_raw = Inl AssertionError"
  by (simp add: downsample_def Let_def deref_def nth_append)

lemma np_zeros_not_empty:
  assumes "0 < fst s" "0 < snd s"
  shows "\<exists>xs. concat (rows (np_zeros s)) = 0 # xs"
proof -
  from assms obtain h c where "fst s = Suc h" "snd s = Suc c"
    by (auto simp add: gr0_conv_Suc)
  then show ?thesis by (simp add: np_zeros_def)
qed

lemma run_read_and_sum_Inl:
  assumes "load_grid R w0 = (w1, Inr (lat_grid_raw, lon_grid_raw))"
    and "select_data R sel w1 = (w2, Inr urls)"
    and "read_and_sum R lat_grid_raw urls w2 = (w3, Inl e)"
  shows "run R sel w0 = (w3, Inl e)"
  using assms by (simp add: run_def)

section \<open>Properties of the notebook\<close>

text \<open>
  C1. One pass of the loop body over a sample \<open>s\<close> of the running sum's shape succeeds,
  keeps the shape, and increases every cell \<open>(i, j)\<close> of the running sum by exactly
  \<open>max (s[i][j]) 0\<close>: a negative value counts as zero, any other value is added as it is
  (a NaN as NaN).
\<close>

theorem fold_step_adds_max:
  assumes "sample_at R url = Some (s, u)"
    and "wf_array s" and "wf_array (rainfall v)"
    and "shape s = shape (rainfall v)"
  shows "\<exists>w1 v1. loop_body R url w v = (w1, Inr v1) \<and>
           wf_array (rainfall v1) \<and> shape (rainfall v1) = shape (rainfall v) \<and>
           (\<forall>i<nrows (rainfall v). \<forall>j<ncols (rainfall v).
              cell (rainfall v1) i j = cell (rainfall v) i j + max (cell s i j) 0)"
  using assms by (rule loop_body_same_shape)

theorem fold_step_adds_max_witness:
  "\<exists>w1 v1. loop_body store2 (ghe_blob_root @ name1) world0 vars_mid = (w1, Inr v1) \<and>
     shape (rainfall v1) = (2, 2) \<and>
     cell (rainfall v1) 0 0 = 6 \<and> cell (rainfall v1) 0 1 = 7 \<and>
     cell (rainfall v1) 1 0 = 0 \<and> cell (rainfall v1) 1 1 = 3"
proof -
  let ?s = "\<lparr>ncols = 2, rows = [[1, -1], [0, 2]]\<rparr>"
  have 1: "sample_at store2 (ghe_blob_root @ name1) = Some (?s, ''mm'')" by code_simp
  have 2: "wf_array ?s" by code_simp
  have 3: "wf_array (rainfall vars_mid)" by code_simp
  have 4: "shape ?s = shape (rainfall vars_mid)" by code_simp
  have 5: "shape (rainfall vars_mid) = (2, 2)" by code_simp
  have c: "cell (rainfall vars_mid) 0 0 = 5" "cell (rainfall vars_mid) 0 1 = 7"
    "cell (rainfall vars_mid) 1 0 = 0" "cell (rainfall vars_mid) 1 1 = 1"
    "cell ?s 0 0 = 1" "cell ?s 0 1 = -1" "cell ?s 1 0 = 0" "cell ?s 1 1 = 2"
    by (simp_all add: cell_def vars_mid_def)
  from fold_step_adds_max [OF 1 2 3 4, of world0] obtain w1 v1 where
    b: "loop_body store2 (ghe_blob_root @ name1) world0 vars_mid = (w1, Inr v1)"
    and sh: "shape (rainfall v1) = shape (rainfall vars_mid)"
    and ce: "\<forall>i<nrows (rainfall vars_mid). \<forall>j<ncols (rainfall vars_mid).
              cell (rainfall v1) i j = cell (rainfall vars_mid) i j + max (cell ?s i j) 0"
    by blast
  from 5 have n: "nrows (rainfall vars_mid) = 2" "ncols (rainfall vars_mid) = 2"
    by (simp_all add: shape_def)
  from ce n c have "cell (rainfall v1) 0 0 = 6" "cell (rainfall v1) 0 1 = 7"
    "cell (rainfall v1) 1 0 = 0" "cell (rainfall v1) 1 1 = 3"
    by (simp_all add: f64_eval)
  with b sh 5 show ?thesis by simp
qed

text \<open>
  C2 (as amended). Under a grid of shape \<open>(2, 2)\<close>, summing the two samples
  \<open>[[1,-1],[0,2]]\<close> and \<open>[[3,4],[-1,-1]]\<close>, in this order, succeeds with the sum
  \<open>[[4,4],[0,2]]\<close> (printed range 0 to 4, in the units of the second sample): cell
  \<open>(0, 1)\<close> is \<open>max (-1) 0 + max 4 0 = 4\<close>.
\<close>

theorem two_samples_sum:
  assumes "shape (array lat_grid_raw) = (2, 2)"
    and "sample_at R url1 = Some (\<lparr>ncols = 2, rows = [[1, -1], [0, 2]]\<rparr>, u1)"
    and "sample_at R url2 = Some (\<lparr>ncols = 2, rows = [[3, 4], [-1, -1]]\<rparr>, u2)"
  shows "\<exists>w1 v. read_and_sum R lat_grid_raw [url1, url2] w = (w1, Inr (v, 0, 4, u2)) \<and>
           rainfall v = \<lparr>ncols = 2, rows = [[4, 4], [0, 2]]\<rparr>"
  using assms by (rule read_and_sum_two_samples)

theorem two_samples_sum_witness:
  "\<exists>w1 v. read_and_sum store2 lat22
             [ghe_blob_root @ name1, ghe_blob_root @ name2] world0 = (w1, Inr (v, 0, 4, ''mm/h'')) \<and>
           rainfall v = \<lparr>ncols = 2, rows = [[4, 4], [0, 2]]\<rparr>"
proof -
  have 1: "shape (array lat22) = (2, 2)"
    by code_simp
  have 2: "sample_at store2 (ghe_blob_root @ name1) =
             Some (\<lparr>ncols = 2, rows = [[1, -1], [0, 2]]\<rparr>, ''mm'')"
    by code_simp
  have 3: "sample_at store2 (ghe_blob_root @ name2) =
             Some (\<lparr>ncols = 2, rows = [[3, 4], [-1, -1]]\<rparr>, ''mm/h'')"
    by code_simp
  show ?thesis
    using two_samples_sum [OF 1 2 3, of world0] .
qed

text \<open>
  The whole notebook on the container \<open>store2\<close>, which holds exactly these two samples
  for the selected day: the sum is not \<open>[[4,3],[0,2]]\<close>.
\<close>

theorem two_samples_sum_counterexample:
  "map_sum id (rainfall \<circ> summed) (snd (run store2 default_selection world0))
     = Inr \<lparr>ncols = 2, rows = [[4, 4], [0, 2]]\<rparr> \<and>
   map_sum id (rainfall \<circ> summed) (snd (run store2 default_selection world0))
     \<noteq> Inr \<lparr>ncols = 2, rows = [[4, 3], [0, 2]]\<rparr>"
  by code_simp

text \<open>
  C5. When every listed blob offers a well-formed sample of the grid's shape, the loop
  succeeds on the listing and on every permutation of it, and both leave the same sum in
  \<open>rainfall\<close> (the arithmetic is exact).
\<close>

theorem sum_order_irrelevant:
  assumes "mset urls' = mset urls"
    and "samples_of_shape R (shape (array lat_grid_raw)) urls"
  shows "\<exists>w1 v1 w2 v2.
           sum_loop R urls w (init_vars lat_grid_raw) = (w1, Inr v1) \<and>
           sum_loop R urls' w (init_vars lat_grid_raw) = (w2, Inr v2) \<and>
           rainfall v1 = rainfall v2"
proof (rule sum_loop_permuted [OF assms(1)])
  show "samples_of_shape R (shape (rainfall (init_vars lat_grid_raw))) urls"
    using assms(2) by (simp add: rainfall_init_vars shape_zeros)
  show "wf_array (rainfall (init_vars lat_grid_raw))"
    by (simp add: rainfall_init_vars wf_zeros)
qed

theorem sum_order_irrelevant_witness:
  "\<exists>w1 v1 w2 v2.
     sum_loop store2 [ghe_blob_root @ name1, ghe_blob_root @ name2] world0
       (init_vars \<lparr>array = np_zeros (2, 2), units = None\<rparr>) = (w1, Inr v1) \<and>
     sum_loop store2 [ghe_blob_root @ name2, ghe_blob_root @ name1] world0
       (init_vars \<lparr>array = np_zeros (2, 2), units = None\<rparr>) = (w2, Inr v2) \<and>
     rainfall v1 = rainfall v2"
proof -
  have 1: "mset [ghe_blob_root @ name2, ghe_blob_root @ name1] =
           mset [ghe_blob_root @ name1, ghe_blob_root @ name2]"
    by simp
  have 2: "samples_of_shape store2 (shape (array \<lparr>array = np_zeros (2, 2), units = None\<rparr>))
             [ghe_blob_root @ name1, ghe_blob_root @ name2]"
    by code_simp
  show ?thesis
    using sum_order_irrelevant [OF 1 2, of world0] .
qed

text \<open>
  C7. In a run whose grid download and selection succeeded, when the first \<open>k\<close> blobs
  of the selection were summed and blob \<open>k\<close> cannot be fetched, gunzipped or decoded (or
  lacks the variable or its units), the summing cell and with it the whole run end with
  the exception of that failure (\<open>failure_at\<close>) and return no sum; the requests of the
  loop are exactly those for blobs \<open>0\<close> to \<open>k\<close>, each once and in order: no retry,
  no skip, no later fetch.
\<close>

theorem failure_aborts_run:
  assumes "load_grid R w0 = (w1, Inr (lat_grid_raw, lon_grid_raw))"
    and "select_data R sel w1 = (w, Inr urls)"
    and "k < length urls"
    and "sum_loop R (take k urls) w (init_vars lat_grid_raw) = (wk, Inr vk)"
    and "sample_at R (urls ! k) = None"
  shows "\<exists>e w'. read_and_sum R lat_grid_raw urls w = (w', Inl e) \<and>
           run R sel w0 = (w', Inl e) \<and>
           failure_at R (urls ! k) = Some e \<and>
           requests w' = requests w @ take (Suc k) urls"
proof -
  from sum_loop_stops [OF assms(3,4,5)] obtain e w' where
    "sum_loop R urls w (init_vars lat_grid_raw) = (w', Inl e)"
    and e: "failure_at R (urls ! k) = Some e"
    and r: "requests w' = requests w @ take (Suc k) urls"
    by blast
  then have s: "read_and_sum R lat_grid_raw urls w = (w', Inl e)"
    by (simp add: read_and_sum_Inl)
  with assms(1,2) have "run R sel w0 = (w', Inl e)"
    by (rule run_read_and_sum_Inl)
  with s e r show ?thesis by blast
qed

theorem failure_aborts_run_witness:
  "\<exists>w'. run store_corrupt default_selection world0 = (w', Inl OSError) \<and>
          requests w' = [grid_file_url, ghe_blob_root @ name1, ghe_blob_root @ name2]"
proof -
  let ?urls = "[ghe_blob_root @ name1, ghe_blob_root @ name2, ghe_blob_root @ name3]"
  have "snd (load_grid store_corrupt world0) = Inr (lat22, lon22)" by code_simp
  moreover have "requests (fst (load_grid store_corrupt world0)) = [grid_file_url]" by code_simp
  ultimately obtain w1 where
    g: "load_grid store_corrupt world0 = (w1, Inr (lat22, lon22))"
    and r1: "requests w1 = [grid_file_url]"
    by (cases "load_grid store_corrupt world0") auto
  let ?w = "w1\<lparr>listings := listings w1 @ [''rain_rate/2020/04/09'']\<rparr>"
  have s: "select_data store_corrupt default_selection w1 = (?w, Inr ?urls)"
    by (simp add: select_data_def list_blobs_def Let_def default_selection_def
        store_corrupt_def startswith_def name1_def name2_def name3_def)
  have 1: "(1::nat) < length ?urls" by simp
  have "samples_of_shape store_corrupt (shape (rainfall (init_vars lat22))) [ghe_blob_root @ name1]"
    by code_simp
  moreover have "wf_array (rainfall (init_vars lat22))"
    by (simp add: rainfall_init_vars wf_zeros)
  ultimately obtain wk vk where
    "sum_loop store_corrupt [ghe_blob_root @ name1] ?w (init_vars lat22) = (wk, Inr vk)"
    using sum_loop_same_shape [of store_corrupt "init_vars lat22" "[ghe_blob_root @ name1]" ?w]
    by blast
  then have 2: "sum_loop store_corrupt (take 1 ?urls) ?w (init_vars lat22) = (wk, Inr vk)"
    by simp
  have 3: "sample_at store_corrupt (?urls ! 1) = None" by code_simp
  have 4: "failure_at store_corrupt (?urls ! 1) = Some OSError" by code_simp
  from failure_aborts_run [OF g s 1 2 3] r1 4 obtain w' where
    "run store_corrupt default_selection world0 = (w', Inl OSError)"
    and "requests w' = [grid_file_url, ghe_blob_root @ name1, ghe_blob_root @ name2]"
    by auto
  then show ?thesis by blast
qed

text \<open>
  C8 (as amended). The sum starts as zeros, so without a negative cell. When the sample
  holds no NaN, a pass of the loop body that succeeds leaves every cell of the sum at
  least zero if every cell was, and where it keeps the sum's shape no cell decreases. So
  when no sample of the listing holds a NaN, the sum that the cell ends with has every
  cell at least zero, and so is the printed minimum. (A NaN cell of a sample is not
  negative, stays, and makes the sum's cell NaN.)
\<close>

theorem aggregate_never_negative:
  "nonneg (rainfall (init_vars lat_grid_raw)) \<and>
   (wf_array (rainfall v) \<and> nonneg (rainfall v) \<and> wf_samples R [url] \<and>
    nan_free_samples R [url] \<and> loop_body R url w v = (w1, Inr v1) \<longrightarrow>
      nonneg (rainfall v1) \<and>
      (shape (rainfall v1) = shape (rainfall v) \<longrightarrow>
         (\<forall>i<nrows (rainfall v). \<forall>j<ncols (rainfall v).
            cell (rainfall v) i j \<le> cell (rainfall v1) i j))) \<and>
   (wf_samples R urls \<and> nan_free_samples R urls \<and>
    read_and_sum R lat_grid_raw urls w' = (w2, Inr (v2, mn, mx, u)) \<longrightarrow>
      nonneg (rainfall v2) \<and> 0 \<le> mn)"
proof (intro conjI impI allI)
  show "nonneg (rainfall (init_vars lat_grid_raw))"
    by (simp add: rainfall_init_vars nonneg_zeros)
next
  assume a: "wf_array (rainfall v) \<and> nonneg (rainfall v) \<and> wf_samples R [url] \<and>
    nan_free_samples R [url] \<and> loop_body R url w v = (w1, Inr v1)"
  then show "nonneg (rainfall v1)"
    using loop_body_wf_nonneg(2) [of R url w v w1 v1] by simp
  fix i j
  assume "shape (rainfall v1) = shape (rainfall v)" "i < nrows (rainfall v)" "j < ncols (rainfall v)"
  with a show "cell (rainfall v) i j \<le> cell (rainfall v1) i j"
    using loop_body_monotone [of R url w v w1 v1 i j] by simp
next
  assume a: "wf_samples R urls \<and> nan_free_samples R urls \<and>
    read_and_sum R lat_grid_raw urls w' = (w2, Inr (v2, mn, mx, u))"
  then have l: "sum_loop R urls w' (init_vars lat_grid_raw) = (w2, Inr v2)"
    and m: "np_min (rainfall v2) = Inr mn"
    using read_and_sum_InrD(1,2) [of R lat_grid_raw urls w' w2 v2 mn mx u] by simp_all
  have "wf_array (rainfall v2) \<and> nonneg (rainfall v2)"
    using l a by (intro sum_loop_wf_nonneg [of R urls w' "init_vars lat_grid_raw" w2])
      (simp_all add: rainfall_init_vars wf_zeros nonneg_zeros)
  then show "nonneg (rainfall v2)" by simp
  with m show "0 \<le> mn" by (rule np_min_nonneg)
qed

theorem aggregate_never_negative_witness:
  "nonneg (rainfall (init_vars lat22)) \<and>
   (\<exists>w1 v1. loop_body store2 (ghe_blob_root @ name1) world0 vars_mid = (w1, Inr v1) \<and>
      nonneg (rainfall v1) \<and> cell (rainfall vars_mid) 0 0 \<le> cell (rainfall v1) 0 0) \<and>
   (\<exists>w2 v2 mn mx u.
      read_and_sum store2 lat22 [ghe_blob_root @ name1, ghe_blob_root @ name2] world0
        = (w2, Inr (v2, mn, mx, u)) \<and>
      nonneg (rainfall v2) \<and> 0 \<le> mn)"
proof -
  let ?url1 = "ghe_blob_root @ name1" and ?url2 = "ghe_blob_root @ name2"
  have s1: "sample_at store2 ?url1 = Some (\<lparr>ncols = 2, rows = [[1, -1], [0, 2]]\<rparr>, ''mm'')"
    by code_simp
  have s2: "sample_at store2 ?url2 = Some (\<lparr>ncols = 2, rows = [[3, 4], [-1, -1]]\<rparr>, ''mm/h'')"
    by code_simp
  have g: "shape (array lat22) = (2, 2)" by code_simp
  have m: "wf_array (rainfall vars_mid)" "nonneg (rainfall vars_mid)"
    "wf_array \<lparr>ncols = 2, rows = [[1, -1], [0, 2]]\<rparr>"
    "shape \<lparr>ncols = 2, rows = [[1, -1], [0, 2]]\<rparr> = shape (rainfall vars_mid)"
    "nrows (rainfall vars_mid) = 2" "ncols (rainfall vars_mid) = 2"
    by code_simp+
  have ws: "wf_samples store2 [?url1]" "wf_samples store2 [?url1, ?url2]"
    "nan_free_samples store2 [?url1]" "nan_free_samples store2 [?url1, ?url2]"
    by code_simp+
  from loop_body_same_shape [OF s1 m(3) m(1) m(4), of world0] obtain w1 v1 where
    b: "loop_body store2 ?url1 world0 vars_mid = (w1, Inr v1)"
    and sh: "shape (rainfall v1) = shape (rainfall vars_mid)"
    by blast
  from read_and_sum_two_samples [OF g s1 s2, of world0] obtain w2 v2 where
    r: "read_and_sum store2 lat22 [?url1, ?url2] world0 = (w2, Inr (v2, 0, 4, ''mm/h''))"
    by blast
  note t = aggregate_never_negative [where lat_grid_raw = lat22 and v = vars_mid and R = store2
      and url = ?url1 and w = world0 and ?w1.0 = w1 and ?v1.0 = v1
      and urls = "[?url1, ?url2]" and w' = world0 and ?w2.0 = w2 and ?v2.0 = v2
      and mn = 0 and mx = 4 and u = "''mm/h''"]
  from t have 1: "nonneg (rainfall (init_vars lat22))" by simp
  from t m ws b sh have 2: "nonneg (rainfall v1)"
    and 3: "cell (rainfall vars_mid) 0 0 \<le> cell (rainfall v1) 0 0"
    by simp_all
  from t ws r have 4: "nonneg (rainfall v2)" and 5: "(0::f64) \<le> 0" by simp_all
  from 1 2 3 4 5 b r show ?thesis by auto
qed

text \<open>
  The whole notebook on the container \<open>store_nan\<close>, whose one scan of the day holds a
  NaN in cell \<open>(0, 1)\<close>: the run succeeds, that cell of the sum is NaN, which is not at
  least zero, and the printed minimum is NaN.
\<close>

theorem aggregate_never_negative_counterexample:
  "map_sum id (rainfall \<circ> summed) (snd (run store_nan default_selection world0))
     = Inr \<lparr>ncols = 2, rows = [[1, NaN], [0, 2]]\<rparr> \<and>
   \<not> nonneg \<lparr>ncols = 2, rows = [[1, NaN], [0, 2]]\<rparr> \<and>
   \<not> 0 \<le> cell \<lparr>ncols = 2, rows = [[1, NaN], [0, 2]]\<rparr> 0 1 \<and>
   map_sum id min_rf (snd (run store_nan default_selection world0)) = Inr NaN"
  by code_simp

text \<open>
  C6. With \<open>single_time_point\<close> set, the selection is exactly one URL, the key built
  from product, year, month, day and time, and nothing is listed (the world is unchanged,
  whatever the store). Otherwise the prefix product/year/month/day is listed once, and the
  selection is the URLs of all listed names that start with the prefix, in the store's
  order: none, one or many.
\<close>

theorem selection_modes:
  "(single_time_point sel \<longrightarrow>
      select_data R sel w =
        (w, Inr [ghe_blob_root @ product sel @ ''/'' @ syear sel @ ''/'' @ smonth sel @ ''/'' @ sday sel
                   @ ''/NPR.GEO.GHE.v1.S'' @ syear sel @ smonth sel @ sday sel @ stime sel @ ''.nc.gz''])) \<and>
   (\<not> single_time_point sel \<and> blob_names R = Some listed \<longrightarrow>
      select_data R sel w =
        (w\<lparr>listings := listings w @ [product sel @ ''/'' @ syear sel @ ''/'' @ smonth sel @ ''/'' @ sday sel]\<rparr>,
         Inr (map (\<lambda>name. ghe_blob_root @ name)
                (filter (\<lambda>name. startswith name
                     (product sel @ ''/'' @ syear sel @ ''/'' @ smonth sel @ ''/'' @ sday sel)) listed))))"
  by (simp add: select_data_def list_blobs_def Let_def)

theorem selection_modes_witness:
  "select_data store_empty (default_selection\<lparr>single_time_point := True\<rparr>) world0 =
     (world0, Inr [''https://ghe.blob.core.windows.net/noaa-ghe/rain_rate/2020/04/09/NPR.GEO.GHE.v1.S202004090200.nc.gz'']) \<and>
   snd (select_data store_empty default_selection world0) = Inr [] \<and>
   snd (select_data store2 default_selection world0) = Inr [ghe_blob_root @ name1, ghe_blob_root @ name2] \<and>
   listings (fst (select_data store2 default_selection world0)) = [''rain_rate/2020/04/09'']"
proof -
  have 1: "single_time_point (default_selection\<lparr>single_time_point := True\<rparr>)"
    by simp
  have 2: "\<not> single_time_point default_selection"
    by (simp add: default_selection_def)
  have 3: "blob_names store_empty = Some [''NPR.GEO.GHE.v1.Navigation.netcdf.gz'']"
    by (simp add: store_empty_def)
  have 4: "blob_names store2 = Some [''NPR.GEO.GHE.v1.Navigation.netcdf.gz'', name1, name2]"
    by (simp add: store2_def)
  have "select_data store_empty (default_selection\<lparr>single_time_point := True\<rparr>) world0 =
     (world0, Inr [''https://ghe.blob.core.windows.net/noaa-ghe/rain_rate/2020/04/09/NPR.GEO.GHE.v1.S202004090200.nc.gz''])"
    using selection_modes [where sel = "default_selection\<lparr>single_time_point := True\<rparr>" and R = store_empty and w = world0] 1
    by (simp add: default_selection_def ghe_blob_root_def storage_account_url_def
        storage_account_name_def container_name_def)
  moreover have "snd (select_data store_empty default_selection world0) = Inr []"
    using selection_modes [where sel = default_selection and R = store_empty and w = world0] 2 3
    by (simp add: default_selection_def startswith_def)
  moreover have "snd (select_data store2 default_selection world0) =
      Inr [ghe_blob_root @ name1, ghe_blob_root @ name2]
    \<and> listings (fst (select_data store2 default_selection world0)) = [''rain_rate/2020/04/09'']"
    using selection_modes [where sel = default_selection and R = store2 and w = world0] 2 4
    by (simp add: default_selection_def startswith_def name1_def name2_def world0_def)
  ultimately show ?thesis by simp
qed

text \<open>
  C9. When the summing cell succeeds on a non-empty listing, the units it prints (the
  value of \<open>rain_units\<close>, which the plot title uses as well) are the units attribute of
  the last blob of the listing, whatever the units of the blobs before it.
\<close>

theorem units_of_last_sample:
  assumes "urls \<noteq> []"
    and "read_and_sum R lat_grid_raw urls w = (w1, Inr (v, mn, mx, u))"
  shows "\<exists>s. sample_at R (last urls) = Some (s, u) \<and> rain_units v = Some u"
proof -
  note d = read_and_sum_InrD [OF assms(2)]
  from sum_loop_last [OF assms(1) d(1)] obtain wk vk where
    "loop_body R (last urls) wk vk = (w1, Inr v)"
    by blast
  from loop_body_InrD [OF this] obtain s u' where
    "sample_at R (last urls) = Some (s, u')" "rain_units v = Some u'"
    by blast
  with d(4) show ?thesis by simp
qed

theorem units_of_last_sample_witness:
  "\<exists>w1 v s. read_and_sum store2 lat22 [ghe_blob_root @ name1, ghe_blob_root @ name2] world0
               = (w1, Inr (v, 0, 4, ''mm/h'')) \<and>
     sample_at store2 (ghe_blob_root @ name1) = Some (\<lparr>ncols = 2, rows = [[1, -1], [0, 2]]\<rparr>, ''mm'') \<and>
     sample_at store2 (ghe_blob_root @ name2) = Some (s, ''mm/h'') \<and>
     rain_units v = Some ''mm/h''"
proof -
  let ?urls = "[ghe_blob_root @ name1, ghe_blob_root @ name2]"
  have s1: "sample_at store2 (ghe_blob_root @ name1) = Some (\<lparr>ncols = 2, rows = [[1, -1], [0, 2]]\<rparr>, ''mm'')"
    by code_simp
  have s2: "sample_at store2 (ghe_blob_root @ name2) = Some (\<lparr>ncols = 2, rows = [[3, 4], [-1, -1]]\<rparr>, ''mm/h'')"
    by code_simp
  have g: "shape (array lat22) = (2, 2)" by code_simp
  from read_and_sum_two_samples [OF g s1 s2, of world0] obtain w1 v where
    r: "read_and_sum store2 lat22 ?urls world0 = (w1, Inr (v, 0, 4, ''mm/h''))"
    by blast
  have n: "?urls \<noteq> []" by simp
  from units_of_last_sample [OF n r] obtain s where
    "sample_at store2 (last ?urls) = Some (s, ''mm/h'')" "rain_units v = Some ''mm/h''"
    by blast
  with r s1 show ?thesis by auto
qed

text \<open>
  C10. When the sum and the two grid variables have one shape, the backup line and the
  downsampling cell succeed. No array object that existed is changed, the sum among them:
  \<open>rainfall_raw\<close> is a fresh copy of it, and \<open>rainfall\<close> is rebound to the view of
  that copy with step 10 on both axes. The downsampled sum, latitude and longitude have
  \<open>\<lceil>H/10\<rceil> \<times> \<lceil>W/10\<rceil>\<close> cells, and their cell \<open>(i, j)\<close> is the raw cell
  \<open>(10 i, 10 j)\<close>.
\<close>

theorem downsample_decimates:
  assumes "a < length h"
    and "wf_array (h ! a)" and "wf_array (array lat_grid_raw)" and "wf_array (array lon_grid_raw)"
    and "shape (array lat_grid_raw) = shape (h ! a)"
    and "shape (array lon_grid_raw) = shape (h ! a)"
  shows "\<exists>h' ns a'.
           downsample h a lat_grid_raw lon_grid_raw = Inr (h', ns) \<and>
           take (length h) h' = h \<and> h' ! a = h ! a \<and>
           rainfall_raw ns = Whole a' \<and> length h \<le> a' \<and> a' < length h' \<and> h' ! a' = h ! a \<and>
           rainfall_name ns = Strided a' 10 \<and>
           shape (deref h' (rainfall_name ns)) = ((nrows (h ! a) + 9) div 10, (ncols (h ! a) + 9) div 10) \<and>
           shape (deref h' (lat_grid ns)) = ((nrows (h ! a) + 9) div 10, (ncols (h ! a) + 9) div 10) \<and>
           shape (deref h' (lon_grid ns)) = ((nrows (h ! a) + 9) div 10, (ncols (h ! a) + 9) div 10) \<and>
           (\<forall>i<(nrows (h ! a) + 9) div 10. \<forall>j<(ncols (h ! a) + 9) div 10.
              cell (deref h' (rainfall_name ns)) i j = cell (h ! a) (10 * i) (10 * j) \<and>
              cell (deref h' (lat_grid ns)) i j = cell (array lat_grid_raw) (10 * i) (10 * j) \<and>
              cell (deref h' (lon_grid ns)) i j = cell (array lon_grid_raw) (10 * i) (10 * j))"
proof -
  let ?A = "h ! a" and ?lat = "array lat_grid_raw" and ?lon = "array lon_grid_raw"
  let ?h' = "h @ [?A] @ [decimate 10 ?lon] @ [decimate 10 ?lat]"
  let ?ns = "\<lparr>rainfall_raw = Whole (length h), lon_grid = Whole (Suc (length h)),
              lat_grid = Whole (Suc (Suc (length h))), rainfall_name = Strided (length h) 10\<rparr>"
  from assms(5,6) have n: "nrows ?lat = nrows ?A" "ncols ?lat = ncols ?A"
    "nrows ?lon = nrows ?A" "ncols ?lon = ncols ?A"
    by (simp_all add: shape_def)
  have d: "downsample h a lat_grid_raw lon_grid_raw = Inr (?h', ?ns)"
    using assms(5,6)
    by (simp add: downsample_def Let_def deref_def slice_view_def ds_factor_def nth_append)
  have old: "take (length h) ?h' = h" "?h' ! a = ?A" "?h' ! length h = ?A"
    using assms(1) by (simp_all add: nth_append)
  have r: "deref ?h' (rainfall_name ?ns) = decimate 10 ?A"
    and la: "deref ?h' (lat_grid ?ns) = decimate 10 ?lat"
    and lo: "deref ?h' (lon_grid ?ns) = decimate 10 ?lon"
    by (simp_all add: deref_def nth_append)
  have sh: "shape (decimate 10 ?A) = ((nrows ?A + 9) div 10, (ncols ?A + 9) div 10)"
    "shape (decimate 10 ?lat) = ((nrows ?A + 9) div 10, (ncols ?A + 9) div 10)"
    "shape (decimate 10 ?lon) = ((nrows ?A + 9) div 10, (ncols ?A + 9) div 10)"
    using n by (simp_all only: shape_decimate_10)
  have c: "cell (decimate 10 ?A) i j = cell ?A (10 * i) (10 * j) \<and>
           cell (decimate 10 ?lat) i j = cell ?lat (10 * i) (10 * j) \<and>
           cell (decimate 10 ?lon) i j = cell ?lon (10 * i) (10 * j)"
    if "i < (nrows ?A + 9) div 10" "j < (ncols ?A + 9) div 10" for i j
    using that n cell_decimate_10 [of ?A i j] cell_decimate_10 [of ?lat i j]
      cell_decimate_10 [of ?lon i j] assms(2,3,4)
    by simp
  show ?thesis
  proof (intro exI conjI)
    show "downsample h a lat_grid_raw lon_grid_raw = Inr (?h', ?ns)" by (rule d)
    show "rainfall_raw ?ns = Whole (length h)" by simp
    show "rainfall_name ?ns = Strided (length h) 10" by simp
    show "take (length h) ?h' = h" by (rule old)
    show "?h' ! a = ?A" by (rule old)
    show "?h' ! length h = ?A" by (rule old)
    show "length h \<le> length h" by simp
    show "length h < length ?h'" by simp
    show "shape (deref ?h' (rainfall_name ?ns)) = ((nrows ?A + 9) div 10, (ncols ?A + 9) div 10)"
      by (simp only: r sh)
    show "shape (deref ?h' (lat_grid ?ns)) = ((nrows ?A + 9) div 10, (ncols ?A + 9) div 10)"
      by (simp only: la sh)
    show "shape (deref ?h' (lon_grid ?ns)) = ((nrows ?A + 9) div 10, (ncols ?A + 9) div 10)"
      by (simp only: lo sh)
    show "\<forall>i<(nrows ?A + 9) div 10. \<forall>j<(ncols ?A + 9) div 10.
            cell (deref ?h' (rainfall_name ?ns)) i j = cell ?A (10 * i) (10 * j) \<and>
            cell (deref ?h' (lat_grid ?ns)) i j = cell ?lat (10 * i) (10 * j) \<and>
            cell (deref ?h' (lon_grid ?ns)) i j = cell ?lon (10 * i) (10 * j)"
      using c by (simp only: r la lo) blast
  qed
qed

theorem downsample_decimates_witness:
  "\<exists>h' ns. downsample [wide_sum] 0 wide_lat wide_lon = Inr (h', ns) \<and>
     h' ! 0 = wide_sum \<and> rainfall_raw ns = Whole 1 \<and> h' ! 1 = wide_sum \<and>
     rainfall_name ns = Strided 1 10 \<and>
     shape (deref h' (rainfall_name ns)) = (1, 2) \<and>
     cell (deref h' (rainfall_name ns)) 0 1 = 10 \<and>
     cell (deref h' (lat_grid ns)) 0 1 = 50 \<and>
     cell (deref h' (lon_grid ns)) 0 1 = 30"
proof -
  have 1: "(0::nat) < length [wide_sum]" by simp
  have 2: "wf_array ([wide_sum] ! 0)" "wf_array (array wide_lat)" "wf_array (array wide_lon)"
    "shape (array wide_lat) = shape ([wide_sum] ! 0)"
    "shape (array wide_lon) = shape ([wide_sum] ! 0)"
    by code_simp+
  have 3: "nrows ([wide_sum] ! 0) = 1" "ncols ([wide_sum] ! 0) = 12"
    "cell wide_sum 0 10 = 10" "cell (array wide_lat) 0 10 = 50" "cell (array wide_lon) 0 10 = 30"
    by (simp_all add: wide_sum_def wide_lat_def wide_lon_def nrows_def cell_def)
  from downsample_decimates [OF 1 2] obtain h' ns a' where
    d: "downsample [wide_sum] 0 wide_lat wide_lon = Inr (h', ns)"
    and o: "h' ! 0 = [wide_sum] ! 0" "rainfall_raw ns = Whole a'" "length [wide_sum] \<le> a'"
      "h' ! a' = [wide_sum] ! 0" "rainfall_name ns = Strided a' 10"
      "take (length [wide_sum]) h' = [wide_sum]" "a' < length h'"
    and s: "shape (deref h' (rainfall_name ns)) =
              ((nrows ([wide_sum] ! 0) + 9) div 10, (ncols ([wide_sum] ! 0) + 9) div 10)"
    and c: "\<forall>i<(nrows ([wide_sum] ! 0) + 9) div 10. \<forall>j<(ncols ([wide_sum] ! 0) + 9) div 10.
              cell (deref h' (rainfall_name ns)) i j = cell ([wide_sum] ! 0) (10 * i) (10 * j) \<and>
              cell (deref h' (lat_grid ns)) i j = cell (array wide_lat) (10 * i) (10 * j) \<and>
              cell (deref h' (lon_grid ns)) i j = cell (array wide_lon) (10 * i) (10 * j)"
    by blast
  have "downsample [wide_sum] 0 wide_lat wide_lon = Inr (h', ns) \<longrightarrow> a' = 1"
    using o(2) by (auto simp add: downsample_def Let_def deref_def ds_factor_def
        slice_view_def split: if_splits)
  with d have a': "a' = 1" by simp
  from c 3 have "cell (deref h' (rainfall_name ns)) 0 1 = 10"
    "cell (deref h' (lat_grid ns)) 0 1 = 50" "cell (deref h' (lon_grid ns)) 0 1 = 30"
    by simp_all
  with d o s 3 a' show ?thesis by auto
qed

text \<open>
  C3 (as amended). The notebook checks no sample's shape against the grid. A sample makes
  the addition fail, with numpy's \<open>ValueError\<close>, when its number of rows or of columns
  differs from the running sum's and neither of the two is 1. In every other case the
  pass of the loop body succeeds: sample and sum are broadcast to the common shape and
  added cell by cell, negative values counted as zero. A sum whose shape differs from the
  grid's fails the shape assertion before downsampling, with \<open>AssertionError\<close>.
\<close>

theorem shape_mismatch_broadcast:
  assumes "sample_at R url = Some (s, u)"
    and "wf_array s" and "wf_array (rainfall v)"
  shows "(broadcast_dim (nrows (rainfall v)) (nrows s) = None \<or>
          broadcast_dim (ncols (rainfall v)) (ncols s) = None \<longrightarrow>
            snd (loop_body R url w v) = Inl ValueError) \<and>
         (\<forall>h c. broadcast_dim (nrows (rainfall v)) (nrows s) = Some h \<and>
                broadcast_dim (ncols (rainfall v)) (ncols s) = Some c \<longrightarrow>
            (\<exists>v1. snd (loop_body R url w v) = Inr v1 \<and> shape (rainfall v1) = (h, c) \<and>
               (\<forall>i<h. \<forall>j<c.
                  cell (rainfall v1) i j =
                  cell (rainfall v) (if nrows (rainfall v) = h then i else 0)
                                    (if ncols (rainfall v) = c then j else 0) +
                  max (cell s (if nrows s = h then i else 0) (if ncols s = c then j else 0)) 0))) \<and>
         (shape A \<noteq> shape (array lat_grid_raw) \<longrightarrow>
            downsample [A] 0 lat_grid_raw lon_grid_raw = Inl AssertionError)"
proof (intro conjI impI allI)
  let ?S = "zero_negative s"
  have dims: "nrows ?S = nrows s" "ncols ?S = ncols s"
    using shape_zero_negative [of s] by (simp_all add: shape_def)
  from loop_body_sample [OF assms(1), of w v] obtain d where
    b: "snd (loop_body R url w v) =
          (case np_add (rainfall v) ?S of
             Inl e \<Rightarrow> Inl e
           | Inr r \<Rightarrow> Inr (v\<lparr>variable_description := Some d, rain_units := Some u, rainfall := r\<rparr>))"
    by blast
  {
    assume "broadcast_dim (nrows (rainfall v)) (nrows s) = None \<or>
            broadcast_dim (ncols (rainfall v)) (ncols s) = None"
    then have "np_add (rainfall v) ?S = Inl ValueError"
      by (intro np_add_ValueError) (simp add: dims)
    with b show "snd (loop_body R url w v) = Inl ValueError" by simp
  next
    fix h c
    assume hc: "broadcast_dim (nrows (rainfall v)) (nrows s) = Some h \<and>
                broadcast_dim (ncols (rainfall v)) (ncols s) = Some c"
    then have "broadcast_dim (nrows (rainfall v)) (nrows ?S) = Some h"
      "broadcast_dim (ncols (rainfall v)) (ncols ?S) = Some c"
      by (simp_all add: dims)
    from np_add_Inr [OF this] obtain r where r: "np_add (rainfall v) ?S = Inr r"
      by blast
    from np_add_InrD(1,2) [OF r] hc have n: "nrows r = h" "ncols r = c"
      by (simp_all add: dims)
    have wfS: "wf_array ?S" using assms(2) by (simp add: wf_zero_negative)
    have "cell r i j =
            cell (rainfall v) (if nrows (rainfall v) = h then i else 0)
                              (if ncols (rainfall v) = c then j else 0) +
            max (cell s (if nrows s = h then i else 0) (if ncols s = c then j else 0)) 0"
      if "i < h" "j < c" for i j
    proof -
      let ?i = "if nrows s = h then i else 0" and ?j = "if ncols s = c then j else 0"
      from hc have "nrows s = h \<or> nrows s = 1" "ncols s = c \<or> ncols s = 1"
        by (auto dest!: broadcast_dim_Some)
      with that have i: "?i < nrows s" and "?j < ncols s" by auto
      then have j: "?j < length (rows s ! ?i)"
        using wf_array_row [OF assms(2), of ?i] by simp
      from np_add_cell [OF r assms(3) wfS, of i j] that n dims
      have "cell r i j =
              cell (rainfall v) (if nrows (rainfall v) = h then i else 0)
                                (if ncols (rainfall v) = c then j else 0) +
              cell ?S ?i ?j"
        by simp
      with cell_zero_negative [OF i j] show ?thesis by simp
    qed
    with b r n
    show "\<exists>v1. snd (loop_body R url w v) = Inr v1 \<and> shape (rainfall v1) = (h, c) \<and>
               (\<forall>i<h. \<forall>j<c.
                  cell (rainfall v1) i j =
                  cell (rainfall v) (if nrows (rainfall v) = h then i else 0)
                                    (if ncols (rainfall v) = c then j else 0) +
                  max (cell s (if nrows s = h then i else 0) (if ncols s = c then j else 0)) 0)"
      by (simp add: shape_def)
  next
    assume "shape A \<noteq> shape (array lat_grid_raw)"
    then show "downsample [A] 0 lat_grid_raw lon_grid_raw = Inl AssertionError"
      using downsample_shape_assert [of 0 "[A]" lat_grid_raw lon_grid_raw] by simp
  }
qed


theorem shape_mismatch_broadcast_witness:
  "(\<exists>v1. snd (loop_body store_row (ghe_blob_root @ name1) world0 vars_mid) = Inr v1 \<and>
      shape (rainfall v1) = (2, 2) \<and>
      cell (rainfall v1) 0 0 = 10 \<and> cell (rainfall v1) 1 0 = 5 \<and> cell (rainfall v1) 1 1 = 1) \<and>
   snd (loop_body store_tall (ghe_blob_root @ name1) world0 vars_mid) = Inl ValueError \<and>
   downsample [\<lparr>ncols = 2, rows = [[1, 2], [3, 4], [5, 6]]\<rparr>] 0 lat22 lon22 = Inl AssertionError"
proof -
  let ?url = "ghe_blob_root @ name1"
  let ?row = "\<lparr>ncols = 2, rows = [[5, -1]]\<rparr>"
  let ?tall = "\<lparr>ncols = 2, rows = [[1, 2], [3, 4], [5, 6]]\<rparr>"
  have r: "sample_at store_row ?url = Some (?row, ''mm'')" "wf_array ?row"
    and t: "sample_at store_tall ?url = Some (?tall, ''mm'')" "wf_array ?tall"
    and m: "wf_array (rainfall vars_mid)"
    by code_simp+
  have d: "broadcast_dim (nrows (rainfall vars_mid)) (nrows ?row) = Some 2"
    "broadcast_dim (ncols (rainfall vars_mid)) (ncols ?row) = Some 2"
    "broadcast_dim (nrows (rainfall vars_mid)) (nrows ?tall) = None"
    "shape ?tall \<noteq> shape (array lat22)"
    by code_simp+
  have c: "nrows (rainfall vars_mid) = 2" "ncols (rainfall vars_mid) = 2"
    "nrows ?row = 1" "ncols ?row = 2"
    "cell (rainfall vars_mid) 0 0 = 5" "cell (rainfall vars_mid) 1 0 = 0"
    "cell (rainfall vars_mid) 1 1 = 1" "cell ?row 0 0 = 5" "cell ?row 0 1 = -1"
    by (simp_all add: vars_mid_def nrows_def cell_def)
  note a = shape_mismatch_broadcast [OF r m, of world0 ?tall lat22 lon22]
  note b = shape_mismatch_broadcast [OF t m, of world0 ?tall lat22 lon22]
  from a d obtain v1 where v1: "snd (loop_body store_row ?url world0 vars_mid) = Inr v1"
    "shape (rainfall v1) = (2, 2)"
    and cells: "\<forall>i<2. \<forall>j<2.
        cell (rainfall v1) i j =
        cell (rainfall vars_mid) (if nrows (rainfall vars_mid) = 2 then i else 0)
                                 (if ncols (rainfall vars_mid) = 2 then j else 0) +
        max (cell ?row (if nrows ?row = 2 then i else 0) (if ncols ?row = 2 then j else 0)) 0"
    by blast
  from cells c have "cell (rainfall v1) 0 0 = 10" "cell (rainfall v1) 1 0 = 5"
    "cell (rainfall v1) 1 1 = 1"
    by (simp_all add: f64_eval)
  with v1 have 1: "\<exists>v1. snd (loop_body store_row ?url world0 vars_mid) = Inr v1 \<and>
      shape (rainfall v1) = (2, 2) \<and>
      cell (rainfall v1) 0 0 = 10 \<and> cell (rainfall v1) 1 0 = 5 \<and> cell (rainfall v1) 1 1 = 1"
    by blast
  from b d have 2: "snd (loop_body store_tall ?url world0 vars_mid) = Inl ValueError"
    by blast
  from a d have 3: "downsample [?tall] 0 lat22 lon22 = Inl AssertionError"
    by blast
  from 1 2 3 show ?thesis by blast
qed

text \<open>
  The whole notebook on the container \<open>store_row\<close>, whose one scan of the day has shape
  \<open>(1, 2)\<close> under the \<open>2 \<times> 2\<close> grid: the run succeeds, and the scan's row is
  added to both rows of the sum.
\<close>

theorem shape_mismatch_counterexample:
  "snd (load_grid store_row world0) = Inr (lat22, lon22) \<and>
   shape (array lat22) = (2, 2) \<and>
   map_option (shape \<circ> fst) (sample_at store_row (ghe_blob_root @ name1)) = Some (1, 2) \<and>
   map_sum id blob_urls (snd (run store_row default_selection world0)) = Inr [ghe_blob_root @ name1] \<and>
   map_sum id (rainfall \<circ> summed) (snd (run store_row default_selection world0))
     = Inr \<lparr>ncols = 2, rows = [[5, 0], [5, 0]]\<rparr>"
  by code_simp

text \<open>
  C4. On an empty listing under a grid with at least one cell, the loop makes no pass and
  leaves the all-zero sum of the grid's shape, but the cell then ends with
  \<open>NameError\<close>: \<open>rain_units\<close>, which the printed message reads, is bound only
  inside the loop.
\<close>

theorem empty_listing_name_error:
  assumes "0 < nrows (array lat_grid_raw)" and "0 < ncols (array lat_grid_raw)"
  shows "sum_loop R [] w (init_vars lat_grid_raw) = (w, Inr (init_vars lat_grid_raw)) \<and>
         rainfall (init_vars lat_grid_raw) = np_zeros (shape (array lat_grid_raw)) \<and>
         rain_units (init_vars lat_grid_raw) = None \<and>
         read_and_sum R lat_grid_raw [] w = (w, Inl NameError)"
proof -
  from np_zeros_not_empty [of "shape (array lat_grid_raw)"] assms obtain xs where
    "concat (rows (np_zeros (shape (array lat_grid_raw)))) = 0 # xs"
    by (auto simp add: shape_def)
  then have "print_range (init_vars lat_grid_raw) = Inl NameError"
    by (simp add: print_range_def np_min_def np_max_def init_vars_def)
  then show ?thesis
    by (simp add: read_and_sum_def) (simp add: init_vars_def)
qed

theorem empty_listing_name_error_witness:
  "snd (load_grid store_empty world0) = Inr (lat22, lon22) \<and>
   snd (select_data store_empty default_selection world0) = Inr [] \<and>
   rainfall (init_vars lat22) = \<lparr>ncols = 2, rows = [[0, 0], [0, 0]]\<rparr> \<and>
   read_and_sum store_empty lat22 [] world0 = (world0, Inl NameError) \<and>
   snd (run store_empty default_selection world0) = Inl NameError"
proof -
  have 1: "0 < nrows (array lat22)" "0 < ncols (array lat22)" by code_simp+
  have 2: "snd (load_grid store_empty world0) = Inr (lat22, lon22)" by code_simp
  have 3: "snd (select_data store_empty default_selection world0) = Inr []" by code_simp
  have 4: "np_zeros (shape (array lat22)) = \<lparr>ncols = 2, rows = [[0, 0], [0, 0]]\<rparr>" by code_simp
  have 5: "snd (run store_empty default_selection world0) = Inl NameError" by code_simp
  from empty_listing_name_error [OF 1, of store_empty world0] 2 3 4 5 show ?thesis by simp
qed

end
